theory Spec2Isabelle
  imports Main "HOL-Library.Sublist"
begin

section \<open>Text: the string operations of the source\<close>

text \<open>
  A Python \<open>str\<close> is modelled as a \<open>string\<close>, each \<open>char\<close> standing for one code point
  below 256. On these code points the functions below are the methods of Python's
  \<open>str\<close>; text with code points of 256 and above is outside the model.
\<close>

definition isspace :: "char \<Rightarrow> bool" where
  \<comment> \<open>\<open>str.isspace\<close> on one character: TAB, LF, VT, FF, CR, FS, GS, RS, US, space, NEL, NBSP\<close>
  "isspace c = (c \<in> set [CHR 0x09, CHR 0x0A, CHR 0x0B, CHR 0x0C, CHR 0x0D,
                         CHR 0x1C, CHR 0x1D, CHR 0x1E, CHR 0x1F, CHR 0x20, CHR 0x85, CHR 0xA0])"

definition is_linebreak :: "char \<Rightarrow> bool" where
  \<comment> \<open>the line boundaries of \<open>str.splitlines\<close>: LF, VT, FF, CR, FS, GS, RS, NEL\<close>
  "is_linebreak c = (c \<in> set [CHR 0x0A, CHR 0x0B, CHR 0x0C, CHR 0x0D,
                              CHR 0x1C, CHR 0x1D, CHR 0x1E, CHR 0x85])"

fun splitlines :: "string \<Rightarrow> string list" where
  \<comment> \<open>\<open>str.splitlines()\<close>: CR LF is one boundary; no empty last line after a final boundary\<close>
  "splitlines [] = []"
| "splitlines (c # cs) =
     (if c = CHR 0x0D then
        (case cs of
           [] \<Rightarrow> [[]]
         | d # ds \<Rightarrow> if d = CHR 0x0A then [] # splitlines ds else [] # splitlines cs)
      else if is_linebreak c then [] # splitlines cs
      else (case splitlines cs of [] \<Rightarrow> [[c]] | l # ls \<Rightarrow> (c # l) # ls))"

definition strip :: "string \<Rightarrow> string" where
  \<comment> \<open>\<open>str.strip()\<close>\<close>
  "strip s = rev (dropWhile isspace (rev (dropWhile isspace s)))"

fun split_ws :: "string \<Rightarrow> string list" where
  \<comment> \<open>\<open>str.split()\<close> with no argument: the maximal runs of non-whitespace\<close>
  "split_ws [] = []"
| "split_ws (c # cs) =
     (if isspace c then split_ws cs
      else (case cs of
              [] \<Rightarrow> [[c]]
            | d # ds \<Rightarrow>
                if isspace d then [c] # split_ws cs
                else (case split_ws cs of [] \<Rightarrow> [[c]] | t # ts \<Rightarrow> (c # t) # ts)))"

definition lower_char :: "char \<Rightarrow> char" where
  \<comment> \<open>\<open>str.lower()\<close> on one character: A-Z and the capital letters of Latin-1\<close>
  "lower_char c =
     (let n = (of_char c :: nat) in
      if (65 \<le> n \<and> n \<le> 90) \<or> (192 \<le> n \<and> n \<le> 214) \<or> (216 \<le> n \<and> n \<le> 222)
      then char_of (n + 32) else c)"

definition lower :: "string \<Rightarrow> string" where
  "lower s = map lower_char s"

definition upper_char :: "char \<Rightarrow> char" where
  \<comment> \<open>\<open>str.upper()\<close> on one ASCII character (the source applies it to a regex match of
      ASCII characters only)\<close>
  "upper_char c =
     (let n = (of_char c :: nat) in if 97 \<le> n \<and> n \<le> 122 then char_of (n - 32) else c)"

definition upper :: "string \<Rightarrow> string" where
  "upper s = map upper_char s"

definition startswith :: "string \<Rightarrow> string \<Rightarrow> bool" where
  \<comment> \<open>\<open>s.startswith(p)\<close>\<close>
  "startswith s p = prefix p s"

definition contains :: "string \<Rightarrow> string \<Rightarrow> bool" where
  \<comment> \<open>\<open>p in s\<close> on strings\<close>
  "contains s p = sublist p s"

definition split_colon :: "string \<Rightarrow> string \<times> string" where
  \<comment> \<open>\<open>line.split(":", 1)\<close> for a line that has a colon: the text before the first colon
      and the text after it\<close>
  "split_colon line =
     (takeWhile (\<lambda>c. c \<noteq> CHR '':'') line, drop 1 (dropWhile (\<lambda>c. c \<noteq> CHR '':'') line))"

fun join :: "string \<Rightarrow> string list \<Rightarrow> string" where
  \<comment> \<open>\<open>sep.join(parts)\<close>\<close>
  "join sep [] = []"
| "join sep [p] = p"
| "join sep (p # q # ps) = p @ sep @ join sep (q # ps)"

section \<open>Constants of the source\<close>

definition ADB_HEALTHY_STATE :: string where
  "ADB_HEALTHY_STATE = ''device''"

definition ADB_SOFT_RESET_COMMANDS :: "string list list" where
  "ADB_SOFT_RESET_COMMANDS = [[''kill-server''], [''start-server''], [''reconnect'']]"

definition ANDROID_DEVICE_NAME :: string where
  "ANDROID_DEVICE_NAME = ''Android Composite ADB Interface''"

definition COMMON_ANDROID_VIDS :: "string set" where
  "COMMON_ANDROID_VIDS =
     {''18D1'', ''0BB4'', ''12D1'', ''04E8'', ''22B8'', ''2A70'', ''0FCE'', ''0502'', ''05C6''}"

section \<open>Parsing the device listing\<close>

fun scan_adb_lines :: "string list \<Rightarrow> string option \<Rightarrow> string option" where
  \<comment> \<open>the \<open>for line in lines\<close> loop of \<open>parse_adb_devices\<close>; \<open>if serial and \<dots>\<close> treats an
      empty serial like no serial\<close>
  "scan_adb_lines [] serial = None"
| "scan_adb_lines (line # rest) serial =
     (if startswith (lower line) ''list of devices'' then scan_adb_lines rest serial
      else (case split_ws line of
              device_serial # state # _ \<Rightarrow>
                (case serial of
                   None \<Rightarrow> Some state
                 | Some s \<Rightarrow>
                     if s \<noteq> [] \<and> device_serial \<noteq> s then scan_adb_lines rest serial
                     else Some state)
            | _ \<Rightarrow> scan_adb_lines rest serial))"

definition adb_lines :: "string \<Rightarrow> string list" where
  \<comment> \<open>\<open>[line.strip() for line in output.splitlines() if line.strip()]\<close>\<close>
  "adb_lines output = map strip (filter (\<lambda>line. strip line \<noteq> []) (splitlines output))"

definition parse_adb_devices :: "string \<Rightarrow> string option \<Rightarrow> string option" where
  "parse_adb_devices output serial = scan_adb_lines (adb_lines output) serial"

section \<open>The host: child processes, the clock and the log\<close>

text \<open>
  Everything the program observes of its host is an answer of the environment \<open>E\<close>; what
  the program does to the host is recorded in the world it passes along: the wall clock,
  in milliseconds, and the trace of commands run, sleeps and logging calls, oldest first.
  A child process either exits after some time with an exit code and its two output
  streams, or cannot be launched, or never exits. The clock moves while a child runs,
  while the program sleeps and until a call of \<open>time.time()\<close> returns, and never backwards.
\<close>

datatype child =
    Exits nat int string string  \<comment> \<open>elapsed milliseconds, exit code, stdout, stderr\<close>
  | LaunchFails
  | Hangs

fun exited :: "child \<Rightarrow> bool" where
  "exited (Exits ms rc out err) = True"
| "exited LaunchFails = False"
| "exited Hangs = False"

datatype level = DEBUG | INFO | WARNING | ERROR

datatype event =
    Ran "string list" child
  | Slept nat
  | Log level string

record world =
  clock :: int
  trace :: "event list"

record env =
  child_of :: "world \<Rightarrow> string list \<Rightarrow> child"
  oversleep :: "world \<Rightarrow> nat"  \<comment> \<open>milliseconds a sleep lasts beyond what was asked\<close>
  tick :: "world \<Rightarrow> nat"  \<comment> \<open>milliseconds that pass until \<open>time.time()\<close> returns\<close>
  platform :: string  \<comment> \<open>\<open>sys.platform\<close>\<close>
  IsUserAnAdmin :: "int option"  \<comment> \<open>\<open>None\<close>: the call raises \<open>OSError\<close>\<close>
  path_sep :: char  \<comment> \<open>\<open>os.path.sep\<close>\<close>
  path_altsep :: "char option"  \<comment> \<open>\<open>os.path.altsep\<close>\<close>
  isfile :: "string \<Rightarrow> bool"  \<comment> \<open>\<open>os.path.isfile\<close>\<close>
  which :: "string \<Rightarrow> string option"  \<comment> \<open>\<open>shutil.which\<close>\<close>

text \<open>
  A call that does not return a value ends in an \<open>abort\<close>: the exception it raises
  (\<open>CommandError\<close> is the program's own class, \<open>OSError\<close> is what \<open>subprocess.run\<close>
  raises when it cannot launch the child, \<open>OverflowError\<close> what the addition of a float and
  an integer raises when the integer is too large for a float), or \<open>NoReturn\<close> when it
  waits for ever.
\<close>

datatype abort = CommandError string | OSError | OverflowError | NoReturn

type_synonym 'a run = "(abort + 'a) \<times> world"

record completed =
  returncode :: int
  stdout :: string
  stderr :: string

definition log :: "level \<Rightarrow> string \<Rightarrow> world \<Rightarrow> world" where
  "log lvl msg w = w\<lparr>trace := trace w @ [Log lvl msg]\<rparr>"

definition child_ran :: "string list \<Rightarrow> child \<Rightarrow> nat \<Rightarrow> world \<Rightarrow> world" where
  \<comment> \<open>a child was run and the program waited \<open>ms\<close> milliseconds for it\<close>
  "child_ran command c ms w = w\<lparr>clock := clock w + int ms, trace := trace w @ [Ran command c]\<rparr>"

definition sleep :: "env \<Rightarrow> nat \<Rightarrow> world \<Rightarrow> world" where
  \<comment> \<open>\<open>time.sleep(secs)\<close>\<close>
  "sleep E secs w =
     (let ms = 1000 * secs + oversleep E w
      in w\<lparr>clock := clock w + int ms, trace := trace w @ [Slept ms]\<rparr>)"

definition time_time :: "env \<Rightarrow> world \<Rightarrow> world" where
  \<comment> \<open>the world in which a call of \<open>time.time()\<close> returns; the value returned is its clock\<close>
  "time_time E w = w\<lparr>clock := clock w + int (tick E w)\<rparr>"

definition float_overflow :: "int \<Rightarrow> bool" where
  \<comment> \<open>the conversion of the integer to a float raises \<open>OverflowError\<close>: rounded to nearest,
      it is beyond the largest double, \<open>2 ^ 1024 - 2 ^ 971\<close>\<close>
  "float_overflow n = (2 ^ 1024 - 2 ^ 970 \<le> \<bar>n\<bar>)"

fun commands :: "event list \<Rightarrow> string list list" where
  \<comment> \<open>the commands run in a trace, in order\<close>
  "commands [] = []"
| "commands (Ran command c # es) = command # commands es"
| "commands (Slept ms # es) = commands es"
| "commands (Log lvl msg # es) = commands es"

definition since :: "world \<Rightarrow> world \<Rightarrow> event list" where
  \<comment> \<open>the events of \<open>w'\<close> that came after those of \<open>w\<close>\<close>
  "since w w' = drop (length (trace w)) (trace w')"

section \<open>Command Runner\<close>

definition run_command :: "env \<Rightarrow> string list \<Rightarrow> int option \<Rightarrow> world \<Rightarrow> completed run" where
  \<comment> \<open>only \<open>subprocess.TimeoutExpired\<close> is caught and raised again as \<open>CommandError\<close>\<close>
  "run_command E command timeout w =
     (let w0 = log DEBUG (''Running command: '' @ join '' '' command) w;
          c = child_of E w command;
          timed_out = CommandError (''Command timed out: '' @ join '' '' command)
      in case c of
           LaunchFails \<Rightarrow> (Inl OSError, child_ran command c 0 w0)
         | Hangs \<Rightarrow>
             (case timeout of
                None \<Rightarrow> (Inl NoReturn, child_ran command c 0 w0)
              | Some t \<Rightarrow> (Inl timed_out, child_ran command c (nat (1000 * t)) w0))
         | Exits ms rc out err \<Rightarrow>
             (case timeout of
                None \<Rightarrow> (Inr \<lparr>returncode = rc, stdout = out, stderr = err\<rparr>, child_ran command c ms w0)
              | Some t \<Rightarrow>
                  if 1000 * t < int ms then (Inl timed_out, child_ran command c (nat (1000 * t)) w0)
                  else (Inr \<lparr>returncode = rc, stdout = out, stderr = err\<rparr>, child_ran command c ms w0)))"

definition adb_command :: "env \<Rightarrow> string \<Rightarrow> string list \<Rightarrow> int option \<Rightarrow> world \<Rightarrow> completed run" where
  "adb_command E adb_path args timeout w = run_command E (adb_path # args) timeout w"

section \<open>Bridge Health Prober\<close>

definition is_adb_healthy :: "env \<Rightarrow> string \<Rightarrow> string option \<Rightarrow> world \<Rightarrow> bool run" where
  "is_adb_healthy E adb_path serial w =
     (case adb_command E adb_path [''devices''] None w of
        (Inl x, w1) \<Rightarrow> (Inl x, w1)
      | (Inr result, w1) \<Rightarrow>
          if returncode result \<noteq> 0
          then (Inr False, log WARNING (''adb devices failed: '' @ strip (stderr result)) w1)
          else (case parse_adb_devices (stdout result) serial of
                  None \<Rightarrow> (Inr False, log INFO ''No ADB device found.'' w1)
                | Some state \<Rightarrow>
                    if state = ADB_HEALTHY_STATE
                    then (Inr True, log INFO (''ADB device is healthy ('' @ state @ '').'') w1)
                    else (Inr False, log WARNING (''ADB device unhealthy ('' @ state @ '').'') w1)))"

section \<open>Soft Resetter\<close>

fun soft_reset_loop :: "env \<Rightarrow> string \<Rightarrow> string list list \<Rightarrow> world \<Rightarrow> unit run" where
  \<comment> \<open>the \<open>for args in ADB_SOFT_RESET_COMMANDS\<close> loop\<close>
  "soft_reset_loop E adb_path [] w = (Inr (), w)"
| "soft_reset_loop E adb_path (args # rest) w =
     (case adb_command E adb_path args None w of
        (Inl x, w1) \<Rightarrow> (Inl x, w1)
      | (Inr result, w1) \<Rightarrow>
          soft_reset_loop E adb_path rest
            (if returncode result \<noteq> 0
             then log WARNING (''adb '' @ join '' '' args @ '' failed: '' @ strip (stderr result)) w1
             else w1))"

definition soft_reset :: "env \<Rightarrow> string \<Rightarrow> world \<Rightarrow> unit run" where
  "soft_reset E adb_path w = soft_reset_loop E adb_path ADB_SOFT_RESET_COMMANDS w"

section \<open>Device Locator\<close>

fun findall_lines :: "string list \<Rightarrow> (string \<times> string) list" where
  \<comment> \<open>the loop of \<open>parse_devcon_findall\<close>: pairs of instance identifier and display name\<close>
  "findall_lines [] = []"
| "findall_lines (line # rest) =
     (if \<not> contains line '':'' then findall_lines rest
      else (case split_colon line of
              (instance_id, name) \<Rightarrow> (strip instance_id, strip name) # findall_lines rest))"

definition parse_devcon_findall :: "string \<Rightarrow> (string \<times> string) list" where
  "parse_devcon_findall output = findall_lines (splitlines output)"

record device =
  dev_id :: string
  dev_name :: string
  hwids :: "string list"

definition is_hex :: "char \<Rightarrow> bool" where
  \<comment> \<open>the character class \<open>[0-9A-Fa-f]\<close>\<close>
  "is_hex c = (c \<in> set ''0123456789ABCDEFabcdef'')"

definition is_upper_hex :: "char \<Rightarrow> bool" where
  \<comment> \<open>the character class \<open>[0-9A-F]\<close>\<close>
  "is_upper_hex c = (c \<in> set ''0123456789ABCDEF'')"

definition match_usb_vid_pid :: "string \<Rightarrow> string option" where
  \<comment> \<open>the pattern \<open>USB\\VID_[0-9A-Fa-f]{4}&PID_[0-9A-Fa-f]{4}\<close> at the start of \<open>s\<close>;
      the result is \<open>group(0)\<close>\<close>
  "match_usb_vid_pid s =
     (let m = take 21 s
      in if length m = 21 \<and> take 8 m = ''USB'' @ [CHR 0x5C] @ ''VID_''
            \<and> list_all is_hex (take 4 (drop 8 m)) \<and> take 5 (drop 12 m) = ''&PID_''
            \<and> list_all is_hex (drop 17 m)
         then Some m else None)"

definition match_vid :: "string \<Rightarrow> string option" where
  \<comment> \<open>the pattern \<open>VID_([0-9A-F]{4})\<close> at the start of \<open>s\<close>; the result is \<open>group(1)\<close>\<close>
  "match_vid s =
     (let g = take 4 (drop 4 s)
      in if take 4 s = ''VID_'' \<and> length g = 4 \<and> list_all is_upper_hex g then Some g else None)"

fun re_search :: "(string \<Rightarrow> string option) \<Rightarrow> string \<Rightarrow> string option" where
  \<comment> \<open>\<open>re.search\<close>: the match at the leftmost position that has one\<close>
  "re_search m [] = m []"
| "re_search m (c # cs) = (case m (c # cs) of Some r \<Rightarrow> Some r | None \<Rightarrow> re_search m cs)"

fun hwids_lines :: "string list \<Rightarrow> device list \<Rightarrow> device option \<Rightarrow> device list" where
  \<comment> \<open>the loop of \<open>parse_devcon_hwids\<close> over the lines, with its variables \<open>devices\<close> and
      \<open>current\<close>, and the \<open>if current\<close> after the loop\<close>
  "hwids_lines [] devices current =
     (case current of None \<Rightarrow> devices | Some d \<Rightarrow> devices @ [d])"
| "hwids_lines (line # rest) devices current =
     (if strip line = [] then
        (case current of
           None \<Rightarrow> hwids_lines rest devices None
         | Some d \<Rightarrow> hwids_lines rest (devices @ [d]) None)
      else if contains line '':'' \<and> \<not> startswith line '' '' then
        (case split_colon line of
           (instance_id, name) \<Rightarrow>
             hwids_lines rest devices
               (Some \<lparr>dev_id = strip instance_id, dev_name = strip name, hwids = []\<rparr>))
      else
        (case current of
           None \<Rightarrow> hwids_lines rest devices None
         | Some d \<Rightarrow>
             (case re_search match_usb_vid_pid line of
                None \<Rightarrow> hwids_lines rest devices current
              | Some m \<Rightarrow> hwids_lines rest devices (Some (d\<lparr>hwids := hwids d @ [upper m]\<rparr>)))))"

definition parse_devcon_hwids :: "string \<Rightarrow> device list" where
  "parse_devcon_hwids output = hwids_lines (splitlines output) [] None"

fun match_by_name :: "(string \<times> string) list \<Rightarrow> (string \<times> string) option" where
  \<comment> \<open>the \<open>for instance_id, name in devices\<close> loop: the first entry whose name matches\<close>
  "match_by_name [] = None"
| "match_by_name ((instance_id, name) # rest) =
     (if contains (lower name) (lower ANDROID_DEVICE_NAME) then Some (instance_id, name)
      else match_by_name rest)"

fun match_hwid :: "string list \<Rightarrow> string option" where
  \<comment> \<open>the \<open>for hwid in device.get("hwids", [])\<close> loop: the first hardware ID of an
      allowlisted vendor\<close>
  "match_hwid [] = None"
| "match_hwid (hwid # rest) =
     (case re_search match_vid hwid of
        None \<Rightarrow> match_hwid rest
      | Some vid \<Rightarrow> if vid \<in> COMMON_ANDROID_VIDS then Some hwid else match_hwid rest)"

fun match_by_vid :: "device list \<Rightarrow> (string \<times> string) option" where
  \<comment> \<open>the \<open>for device in parse_devcon_hwids(\<dots>)\<close> loop: identifier and matching hardware ID\<close>
  "match_by_vid [] = None"
| "match_by_vid (d # rest) =
     (case match_hwid (hwids d) of
        None \<Rightarrow> match_by_vid rest
      | Some hwid \<Rightarrow> Some (dev_id d, hwid))"

definition find_by_hwids :: "env \<Rightarrow> string \<Rightarrow> world \<Rightarrow> string option run" where
  \<comment> \<open>the second stage of \<open>find_devcon_device\<close>, from \<open>hwids_result = \<dots>\<close> on\<close>
  "find_by_hwids E devcon_path w =
     (case run_command E [devcon_path, ''hwids'', ''=usb''] None w of
        (Inl x, w1) \<Rightarrow> (Inl x, w1)
      | (Inr hwids_result, w1) \<Rightarrow>
          if returncode hwids_result \<noteq> 0
          then (Inr None, log ERROR (''devcon hwids failed: '' @ strip (stderr hwids_result)) w1)
          else (case match_by_vid (parse_devcon_hwids (stdout hwids_result)) of
                  None \<Rightarrow> (Inr None, w1)
                | Some (instance_id, hwid) \<Rightarrow>
                    (Inr (Some instance_id), log INFO (''Matched device by VID/PID: '' @ hwid) w1)))"

definition find_devcon_device :: "env \<Rightarrow> string \<Rightarrow> world \<Rightarrow> string option run" where
  "find_devcon_device E devcon_path w =
     (case run_command E [devcon_path, ''findall'', ''=usb''] None w of
        (Inl x, w1) \<Rightarrow> (Inl x, w1)
      | (Inr findall, w1) \<Rightarrow>
          (case (if returncode findall = 0
                 then match_by_name (parse_devcon_findall (stdout findall)) else None) of
             Some (instance_id, name) \<Rightarrow>
               (Inr (Some instance_id), log INFO (''Matched device by name: '' @ name) w1)
           | None \<Rightarrow> find_by_hwids E devcon_path w1))"

section \<open>Hard Resetter\<close>

definition hard_reset :: "env \<Rightarrow> string \<Rightarrow> string \<Rightarrow> bool \<Rightarrow> world \<Rightarrow> bool run" where
  "hard_reset E devcon_path instance_id dry_run w =
     (if dry_run then
        (Inr True, log INFO (''Dry run: would enable '' @ instance_id)
                     (log INFO (''Dry run: would disable '' @ instance_id) w))
      else
        (case run_command E [devcon_path, ''disable'', instance_id] None w of
           (Inl x, w1) \<Rightarrow> (Inl x, w1)
         | (Inr disable, w1) \<Rightarrow>
             if returncode disable \<noteq> 0
             then (Inr False, log ERROR (''devcon disable failed: '' @ strip (stderr disable)) w1)
             else
               (case run_command E [devcon_path, ''enable'', instance_id] None (sleep E 2 w1) of
                  (Inl x, w2) \<Rightarrow> (Inl x, w2)
                | (Inr enable, w2) \<Rightarrow>
                    if returncode enable \<noteq> 0
                    then (Inr False,
                          log ERROR (''devcon enable failed: '' @ strip (stderr enable)) w2)
                    else (Inr True, w2))))"

section \<open>Polling\<close>

text \<open>
  The clock is read once for the deadline and once before every round. The deadline is the
  sum of a float and the integer timeout: the conversion of the timeout raises
  \<open>OverflowError\<close> when it is too large; the rounding of the sum is not modelled. The loop
  ends because every round sleeps two seconds; the recursion is on the time left to the
  deadline, which needs that a probe does not move the clock back.
\<close>

lemma run_command_clock:
  "run_command E command timeout w = (r, w1) \<Longrightarrow> clock w \<le> clock w1"
  by (auto simp: run_command_def Let_def child_ran_def log_def split: child.splits option.splits if_splits)

lemma is_adb_healthy_clock:
  "is_adb_healthy E adb_path serial w = (r, w1) \<Longrightarrow> clock w \<le> clock w1"
  by (auto simp: is_adb_healthy_def adb_command_def log_def
           split: prod.splits sum.splits option.splits if_splits dest: run_command_clock)

function poll_loop :: "env \<Rightarrow> string \<Rightarrow> string option \<Rightarrow> int \<Rightarrow> world \<Rightarrow> bool run" where
  \<comment> \<open>\<open>while time.time() < deadline\<close>, the deadline in milliseconds\<close>
  "poll_loop E adb_path serial deadline w =
     (if clock (time_time E w) < deadline then
        (case is_adb_healthy E adb_path serial (time_time E w) of
           (Inl x, w1) \<Rightarrow> (Inl x, w1)
         | (Inr healthy, w1) \<Rightarrow>
             if healthy then (Inr True, w1)
             else poll_loop E adb_path serial deadline (sleep E 2 w1))
      else (Inr False, time_time E w))"
  by pat_completeness auto
termination
  apply (relation "measure (\<lambda>(E, adb_path, serial, deadline, w). nat (deadline - clock w))")
   apply simp
  subgoal for E adb_path serial deadline w x w1 healthy
    using is_adb_healthy_clock [of E adb_path serial "time_time E w" "Inr healthy" w1]
    by (simp add: sleep_def time_time_def Let_def)
  done

declare poll_loop.simps [simp del]

definition poll_until_healthy :: "env \<Rightarrow> string \<Rightarrow> string option \<Rightarrow> int \<Rightarrow> world \<Rightarrow> bool run" where
  \<comment> \<open>\<open>deadline = time.time() + timeout\<close>, the timeout in seconds\<close>
  "poll_until_healthy E adb_path serial timeout w =
     (if float_overflow timeout then (Inl OverflowError, time_time E w)
      else poll_loop E adb_path serial (clock (time_time E w) + 1000 * timeout) (time_time E w))"

section \<open>Recovery Orchestrator\<close>

record args =
  arg_adb_path :: string
  arg_devcon_path :: string
  arg_timeout :: int
  arg_serial :: "string option"
  arg_dry_run :: bool
  arg_verbose :: bool

definition is_windows_admin :: "env \<Rightarrow> bool" where
  "is_windows_admin E =
     (if platform E \<noteq> ''win32'' then True
      else (case IsUserAnAdmin E of None \<Rightarrow> False | Some r \<Rightarrow> r \<noteq> 0))"

definition resolve_executable :: "env \<Rightarrow> string \<Rightarrow> string option" where
  "resolve_executable E path =
     (if contains path [path_sep E]
         \<or> (case path_altsep E of None \<Rightarrow> False | Some a \<Rightarrow> contains path [a])
      then (if isfile E path then Some path else None)
      else (case which E path of
              None \<Rightarrow> None
            | Some resolved \<Rightarrow> if resolved \<noteq> [] then Some resolved else None))"

definition truthy :: "string option \<Rightarrow> bool" where
  \<comment> \<open>the truth value Python gives a \<open>str | None\<close>\<close>
  "truthy p = (case p of None \<Rightarrow> False | Some s \<Rightarrow> s \<noteq> [])"

definition escalate :: "env \<Rightarrow> args \<Rightarrow> string \<Rightarrow> string \<Rightarrow> world \<Rightarrow> int run" where
  \<comment> \<open>\<open>main\<close> from the warning that the soft reset did not help to its end\<close>
  "escalate E a adb_path devcon_path w =
     (case find_devcon_device E devcon_path
             (log WARNING ''Soft reset did not recover device; attempting hard reset.'' w) of
        (Inl x, w4) \<Rightarrow> (Inl x, w4)
      | (Inr instance_id, w4) \<Rightarrow>
     if \<not> truthy instance_id
     then (Inr 1, log ERROR ''Unable to locate Android USB device for hard reset.'' w4) else
     (case hard_reset E devcon_path (the instance_id) (arg_dry_run a) w4 of
        (Inl x, w5) \<Rightarrow> (Inl x, w5)
      | (Inr ok, w5) \<Rightarrow>
     if \<not> ok then (Inr 1, w5) else
     (case soft_reset E adb_path w5 of
        (Inl x, w6) \<Rightarrow> (Inl x, w6)
      | (Inr _, w6) \<Rightarrow>
     (case poll_until_healthy E adb_path (arg_serial a) (arg_timeout a) w6 of
        (Inl x, w7) \<Rightarrow> (Inl x, w7)
      | (Inr recovered, w7) \<Rightarrow>
     if recovered then (Inr 0, w7)
     else (Inr 1, log ERROR ''Device did not recover before timeout.'' w7)))))"

definition recover :: "env \<Rightarrow> args \<Rightarrow> string \<Rightarrow> string \<Rightarrow> world \<Rightarrow> int run" where
  \<comment> \<open>\<open>main\<close> from the first probe on, with both tools resolved\<close>
  "recover E a adb_path devcon_path w =
     (case is_adb_healthy E adb_path (arg_serial a) w of
        (Inl x, w1) \<Rightarrow> (Inl x, w1)
      | (Inr healthy, w1) \<Rightarrow>
     if healthy then (Inr 0, w1) else
     (case soft_reset E adb_path (log INFO ''Attempting soft reset of ADB server.'' w1) of
        (Inl x, w2) \<Rightarrow> (Inl x, w2)
      | (Inr _, w2) \<Rightarrow>
     (case poll_until_healthy E adb_path (arg_serial a) (arg_timeout a) w2 of
        (Inl x, w3) \<Rightarrow> (Inl x, w3)
      | (Inr recovered, w3) \<Rightarrow>
     if recovered then (Inr 0, w3) else escalate E a adb_path devcon_path w3)))"

definition main :: "env \<Rightarrow> args \<Rightarrow> world \<Rightarrow> int run" where
  \<comment> \<open>\<open>main\<close> after \<open>parse_args\<close> and \<open>configure_logging\<close>\<close>
  "main E a w =
     (if \<not> is_windows_admin E
      then (Inr 3, log ERROR ''Administrator privileges are required on Windows.'' w)
      else
        (let adb_path = resolve_executable E (arg_adb_path a);
             devcon_path = resolve_executable E (arg_devcon_path a)
         in if \<not> truthy adb_path
            then (Inr 2, log ERROR (''adb.exe not found at '' @ arg_adb_path a) w)
            else if \<not> truthy devcon_path
            then (Inr 2, log ERROR (''devcon.exe not found at '' @ arg_devcon_path a) w)
            else recover E a (the adb_path) (the devcon_path) w))"

section \<open>Reading a trace\<close>

definition is_probe :: "event \<Rightarrow> bool" where
  \<comment> \<open>a run of the device listing: a command of two words, the second \<open>devices\<close>\<close>
  "is_probe e = (case e of Ran command c \<Rightarrow> tl command = [''devices''] | _ \<Rightarrow> False)"

definition is_hard_reset_event :: "event \<Rightarrow> bool" where
  \<comment> \<open>what a call of \<open>hard_reset\<close> leaves first: a disable or enable command, or the
      lines of a dry run\<close>
  "is_hard_reset_event e =
     (case e of
        Ran command c \<Rightarrow> length command = 3 \<and> (command ! 1 = ''disable'' \<or> command ! 1 = ''enable'')
      | Slept ms \<Rightarrow> False
      | Log lvl msg \<Rightarrow> lvl = INFO \<and> prefix ''Dry run: would '' msg)"

definition is_healthy_observation :: "string option \<Rightarrow> event \<Rightarrow> bool" where
  \<comment> \<open>a device listing that exited with code 0 and whose selected record has the
      healthy state\<close>
  "is_healthy_observation serial e =
     (case e of
        Ran command c \<Rightarrow>
          tl command = [''devices'']
          \<and> (case c of
                Exits ms rc out err \<Rightarrow> rc = 0 \<and> parse_adb_devices out serial = Some ADB_HEALTHY_STATE
              | _ \<Rightarrow> False)
      | _ \<Rightarrow> False)"

definition steps :: "(event \<Rightarrow> bool) \<Rightarrow> world \<Rightarrow> world \<Rightarrow> bool" where
  \<comment> \<open>\<open>w'\<close> continues \<open>w\<close>, and every event added satisfies \<open>P\<close>\<close>
  "steps P w w' = (prefix (trace w) (trace w') \<and> list_all P (since w w'))"

definition quiet :: "event \<Rightarrow> bool" where
  "quiet e = (\<not> is_probe e \<and> \<not> is_hard_reset_event e)"

definition ends_healthy :: "string option \<Rightarrow> event list \<Rightarrow> bool" where
  \<comment> \<open>the last command was a healthy device listing, followed by its log line only\<close>
  "ends_healthy serial tr =
     (case rev tr of
        l # e # _ \<Rightarrow>
          l = Log INFO (''ADB device is healthy ('' @ ADB_HEALTHY_STATE @ '').'')
          \<and> is_healthy_observation serial e
      | _ \<Rightarrow> False)"

definition ends_failed :: "event list \<Rightarrow> bool" where
  \<comment> \<open>the last event is the error line of a failed recovery: device not found, hard
      reset failed, or timed out\<close>
  "ends_failed tr =
     (case rev tr of
        e # _ \<Rightarrow>
          (case e of
             Log lvl msg \<Rightarrow>
               lvl = ERROR
               \<and> (msg = ''Unable to locate Android USB device for hard reset.''
                    \<or> prefix ''devcon disable failed: '' msg
                    \<or> prefix ''devcon enable failed: '' msg
                    \<or> msg = ''Device did not recover before timeout.'')
           | _ \<Rightarrow> False)
      | [] \<Rightarrow> False)"

definition no_reset :: "event \<Rightarrow> bool" where
  "no_reset e = (\<not> is_hard_reset_event e)"

definition tools_resolved :: "env \<Rightarrow> args \<Rightarrow> bool" where
  "tools_resolved E a =
     (truthy (resolve_executable E (arg_adb_path a))
      \<and> truthy (resolve_executable E (arg_devcon_path a)))"

text \<open>
  The selected record as the specification describes it, to be compared with the loop of
  \<open>parse_adb_devices\<close>.
\<close>

definition spec_records :: "string \<Rightarrow> string list list" where
  \<comment> \<open>the records of a listing: the fields of every line that is not blank, is not the
      header and has a serial and a state\<close>
  "spec_records output =
     filter (\<lambda>fields. 2 \<le> length fields)
       (map split_ws
          (filter (\<lambda>line. \<not> startswith (lower line) ''list of devices'') (adb_lines output)))"

definition spec_selected :: "string \<Rightarrow> string option \<Rightarrow> string list option" where
  \<comment> \<open>the first record whose serial matches when a serial filter is set, the first record
      otherwise\<close>
  "spec_selected output serial =
     find (\<lambda>fields. if truthy serial then hd fields = the serial else True) (spec_records output)"

definition spec_state :: "string \<Rightarrow> string option \<Rightarrow> string option" where
  \<comment> \<open>the state token of the selected record\<close>
  "spec_state output serial = map_option (\<lambda>fields. fields ! 1) (spec_selected output serial)"

definition exited_event :: "event \<Rightarrow> bool" where
  \<comment> \<open>no child that could not be launched or did not exit\<close>
  "exited_event e = (case e of Ran command c \<Rightarrow> exited c | _ \<Rightarrow> True)"

definition raised_by :: "abort \<Rightarrow> event list \<Rightarrow> bool" where
  \<comment> \<open>the last event is the child whose fate the abort reports: \<open>OSError\<close> for a child
      that could not be launched, \<open>NoReturn\<close> for one that did not exit\<close>
  "raised_by x evs =
     (case rev evs of
        [] \<Rightarrow> False
      | e # _ \<Rightarrow>
          (case e of
             Ran command c \<Rightarrow> (c = LaunchFails \<and> x = OSError) \<or> (c = Hangs \<and> x = NoReturn)
           | _ \<Rightarrow> False))"

definition accounted :: "abort + 'a \<Rightarrow> world \<Rightarrow> world \<Rightarrow> bool" where
  \<comment> \<open>\<open>w'\<close> continues \<open>w\<close>; every child since \<open>w\<close> exited, but for the last one when the
      result is the abort that this child caused\<close>
  "accounted r w w' =
     (prefix (trace w) (trace w')
      \<and> (case r of
            Inr v \<Rightarrow> list_all exited_event (since w w')
          | Inl x \<Rightarrow>
              if x = OverflowError then list_all exited_event (since w w')
              else list_all exited_event (butlast (since w w')) \<and> raised_by x (since w w')))"

text \<open>
  The outcomes of a run, with the names and exit codes the specification gives them. Each
  rule is one way through the orchestrator, told by the results of the operations it calls.
\<close>

datatype RecoveryOutcome =
    AlreadyHealthy | RecoveredBySoftReset | RecoveredByHardReset
  | DeviceNotFound | HardResetFailed | TimedOut

fun exit_code :: "RecoveryOutcome \<Rightarrow> int" where
  "exit_code AlreadyHealthy = 0"
| "exit_code RecoveredBySoftReset = 0"
| "exit_code RecoveredByHardReset = 0"
| "exit_code DeviceNotFound = 1"
| "exit_code HardResetFailed = 1"
| "exit_code TimedOut = 1"

inductive soft_reset_exhausted :: "env \<Rightarrow> args \<Rightarrow> string \<Rightarrow> world \<Rightarrow> world \<Rightarrow> bool"
  for E a adb_path where
  "is_adb_healthy E adb_path (arg_serial a) w = (Inr False, w1) \<Longrightarrow>
   soft_reset E adb_path (log INFO ''Attempting soft reset of ADB server.'' w1) = (Inr u, w2) \<Longrightarrow>
   poll_until_healthy E adb_path (arg_serial a) (arg_timeout a) w2 = (Inr False, w3) \<Longrightarrow>
   soft_reset_exhausted E a adb_path w w3"

inductive hard_reset_done :: "env \<Rightarrow> args \<Rightarrow> string \<Rightarrow> string \<Rightarrow> world \<Rightarrow> world \<Rightarrow> bool"
  for E a adb_path devcon_path where
  "soft_reset_exhausted E a adb_path w w3 \<Longrightarrow>
   find_devcon_device E devcon_path
     (log WARNING ''Soft reset did not recover device; attempting hard reset.'' w3)
     = (Inr found, w4) \<Longrightarrow>
   truthy found \<Longrightarrow>
   hard_reset E devcon_path (the found) (arg_dry_run a) w4 = (Inr True, w5) \<Longrightarrow>
   soft_reset E adb_path w5 = (Inr u, w6) \<Longrightarrow>
   hard_reset_done E a adb_path devcon_path w w6"

inductive spec_outcome ::
  "env \<Rightarrow> args \<Rightarrow> string \<Rightarrow> string \<Rightarrow> world \<Rightarrow> RecoveryOutcome \<Rightarrow> world \<Rightarrow> bool"
  for E a adb_path devcon_path where
  already_healthy:
  "is_adb_healthy E adb_path (arg_serial a) w = (Inr True, w') \<Longrightarrow>
   spec_outcome E a adb_path devcon_path w AlreadyHealthy w'"
| recovered_by_soft_reset:
  "is_adb_healthy E adb_path (arg_serial a) w = (Inr False, w1) \<Longrightarrow>
   soft_reset E adb_path (log INFO ''Attempting soft reset of ADB server.'' w1) = (Inr u, w2) \<Longrightarrow>
   poll_until_healthy E adb_path (arg_serial a) (arg_timeout a) w2 = (Inr True, w') \<Longrightarrow>
   spec_outcome E a adb_path devcon_path w RecoveredBySoftReset w'"
| device_not_found:
  "soft_reset_exhausted E a adb_path w w3 \<Longrightarrow>
   find_devcon_device E devcon_path
     (log WARNING ''Soft reset did not recover device; attempting hard reset.'' w3)
     = (Inr found, w4) \<Longrightarrow>
   \<not> truthy found \<Longrightarrow>
   spec_outcome E a adb_path devcon_path w DeviceNotFound
     (log ERROR ''Unable to locate Android USB device for hard reset.'' w4)"
| hard_reset_failed:
  "soft_reset_exhausted E a adb_path w w3 \<Longrightarrow>
   find_devcon_device E devcon_path
     (log WARNING ''Soft reset did not recover device; attempting hard reset.'' w3)
     = (Inr found, w4) \<Longrightarrow>
   truthy found \<Longrightarrow>
   hard_reset E devcon_path (the found) (arg_dry_run a) w4 = (Inr False, w') \<Longrightarrow>
   spec_outcome E a adb_path devcon_path w HardResetFailed w'"
| recovered_by_hard_reset:
  "hard_reset_done E a adb_path devcon_path w w6 \<Longrightarrow>
   poll_until_healthy E adb_path (arg_serial a) (arg_timeout a) w6 = (Inr True, w') \<Longrightarrow>
   spec_outcome E a adb_path devcon_path w RecoveredByHardReset w'"
| timed_out:
  "hard_reset_done E a adb_path devcon_path w w6 \<Longrightarrow>
   poll_until_healthy E adb_path (arg_serial a) (arg_timeout a) w6 = (Inr False, w7) \<Longrightarrow>
   spec_outcome E a adb_path devcon_path w TimedOut
     (log ERROR ''Device did not recover before timeout.'' w7)"

code_pred soft_reset_exhausted .
code_pred hard_reset_done .
code_pred spec_outcome .

section \<open>Basic facts about the world\<close>

lemma trace_log [simp]: "trace (log lvl msg w) = trace w @ [Log lvl msg]"
  by (simp add: log_def)

lemma clock_log [simp]: "clock (log lvl msg w) = clock w"
  by (simp add: log_def)

lemma trace_child_ran [simp]: "trace (child_ran command c ms w) = trace w @ [Ran command c]"
  by (simp add: child_ran_def)

lemma clock_child_ran [simp]: "clock (child_ran command c ms w) = clock w + int ms"
  by (simp add: child_ran_def)

lemma trace_sleep [simp]:
  "trace (sleep E secs w) = trace w @ [Slept (1000 * secs + oversleep E w)]"
  by (simp add: sleep_def Let_def)

lemma clock_sleep [simp]:
  "clock (sleep E secs w) = clock w + int (1000 * secs + oversleep E w)"
  by (simp add: sleep_def Let_def)

lemma trace_time_time [simp]: "trace (time_time E w) = trace w"
  by (simp add: time_time_def)

lemma clock_time_time [simp]: "clock (time_time E w) = clock w + int (tick E w)"
  by (simp add: time_time_def)

lemma commands_append [simp]: "commands (xs @ ys) = commands xs @ commands ys"
  by (induction xs rule: commands.induct) simp_all

lemma since_append: "trace w' = trace w @ evs \<Longrightarrow> since w w' = evs"
  by (simp add: since_def)

lemma since_self [simp]: "since w w = []"
  by (simp add: since_def)

text \<open>Without a timeout, the runner's result is the child's own fate.\<close>

lemma run_command_None:
  "run_command E command None w =
     (let w0 = log DEBUG (''Running command: '' @ join '' '' command) w
      in case child_of E w command of
           Exits ms rc out err \<Rightarrow>
             (Inr \<lparr>returncode = rc, stdout = out, stderr = err\<rparr>,
              child_ran command (Exits ms rc out err) ms w0)
         | LaunchFails \<Rightarrow> (Inl OSError, child_ran command LaunchFails 0 w0)
         | Hangs \<Rightarrow> (Inl NoReturn, child_ran command Hangs 0 w0))"
  by (simp add: run_command_def Let_def split: child.splits)

lemma run_command_trace:
  "trace (snd (run_command E command timeout w)) =
     trace w @ [Log DEBUG (''Running command: '' @ join '' '' command),
                Ran command (child_of E w command)]"
  by (simp add: run_command_def Let_def split: child.splits option.splits)

section \<open>How the operations extend the trace\<close>

lemma stepsI: "trace w' = trace w @ evs \<Longrightarrow> list_all P evs \<Longrightarrow> steps P w w'"
  by (simp add: steps_def since_def)

lemma stepsD: "steps P w w' \<Longrightarrow> \<exists>evs. trace w' = trace w @ evs \<and> list_all P evs \<and> since w w' = evs"
  by (auto simp: steps_def since_def prefix_def)

lemma steps_refl [simp]: "steps P w w"
  by (simp add: steps_def)

lemma steps_trans: "steps P w w1 \<Longrightarrow> steps P w1 w2 \<Longrightarrow> steps P w w2"
  by (auto simp: steps_def since_def prefix_def)

lemma since_trans:
  "steps P w w1 \<Longrightarrow> steps Q w1 w2 \<Longrightarrow> since w w2 = since w w1 @ since w1 w2"
  by (auto simp: steps_def since_def prefix_def)

lemma steps_log: "P (Log lvl msg) \<Longrightarrow> steps P w (log lvl msg w)"
  by (rule stepsI [where evs = "[Log lvl msg]"]) simp_all

lemma steps_sleep: "P (Slept (1000 * secs + oversleep E w)) \<Longrightarrow> steps P w (sleep E secs w)"
  by (rule stepsI [where evs = "[Slept (1000 * secs + oversleep E w)]"]) simp_all

lemma steps_run_command:
  "P (Log DEBUG (''Running command: '' @ join '' '' command)) \<Longrightarrow>
   P (Ran command (child_of E w command)) \<Longrightarrow>
   steps P w (snd (run_command E command timeout w))"
  by (rule stepsI [OF run_command_trace]) simp

lemma steps_run_command':
  "run_command E command timeout w = (r, w') \<Longrightarrow>
   P (Log DEBUG (''Running command: '' @ join '' '' command)) \<Longrightarrow>
   P (Ran command (child_of E w command)) \<Longrightarrow>
   steps P w w'"
  using steps_run_command [of P command E w timeout] by simp

lemma steps_time [simp]: "steps P w (time_time E w)"
  by (rule stepsI [where evs = "[]"]) simp_all

lemma steps_then_log: "steps P w w1 \<Longrightarrow> P (Log lvl msg) \<Longrightarrow> steps P w (log lvl msg w1)"
  by (erule steps_trans) (rule steps_log)

lemma steps_then_sleep:
  "steps P w w1 \<Longrightarrow> P (Slept (1000 * secs + oversleep E w1)) \<Longrightarrow> steps P w (sleep E secs w1)"
  by (erule steps_trans) (rule steps_sleep)

lemma quiet_debug [simp]: "quiet (Log DEBUG msg)"
  by (simp add: quiet_def is_probe_def is_hard_reset_event_def)

lemma quiet_warning [simp]: "quiet (Log WARNING msg)"
  by (simp add: quiet_def is_probe_def is_hard_reset_event_def)

lemma quiet_error [simp]: "quiet (Log ERROR msg)"
  by (simp add: quiet_def is_probe_def is_hard_reset_event_def)

lemma soft_reset_loop_quiet:
  "list_all (\<lambda>args. args \<in> set ADB_SOFT_RESET_COMMANDS) cmds \<Longrightarrow>
   steps quiet w (snd (soft_reset_loop E adb_path cmds w))"
proof (induction cmds arbitrary: w)
  case Nil
  show ?case by simp
next
  case (Cons args rest)
  then have a: "args \<in> set ADB_SOFT_RESET_COMMANDS" and r: "list_all (\<lambda>args. args \<in> set ADB_SOFT_RESET_COMMANDS) rest"
    by simp_all
  have q: "quiet (Ran (adb_path # args) c)" for c
    using a by (auto simp: ADB_SOFT_RESET_COMMANDS_def quiet_def is_probe_def is_hard_reset_event_def)
  obtain r1 w1 where rc: "run_command E (adb_path # args) None w = (r1, w1)"
    by (cases "run_command E (adb_path # args) None w")
  have s1: "steps quiet w w1"
    using rc q by (auto intro: steps_run_command')
  show ?case
  proof (cases r1)
    case (Inl x)
    then show ?thesis using rc s1 by (simp add: adb_command_def)
  next
    case (Inr result)
    let ?w2 = "if returncode result \<noteq> 0
               then log WARNING (''adb '' @ join '' '' args @ '' failed: '' @ strip (stderr result)) w1
               else w1"
    have "steps quiet w1 ?w2" by (simp add: steps_log)
    with s1 have "steps quiet w ?w2" by (rule steps_trans)
    moreover have "steps quiet ?w2 (snd (soft_reset_loop E adb_path rest ?w2))"
      using Cons.IH [OF r] .
    ultimately have "steps quiet w (snd (soft_reset_loop E adb_path rest ?w2))"
      by (rule steps_trans)
    then show ?thesis using rc Inr by (simp add: adb_command_def)
  qed
qed

lemma soft_reset_quiet: "steps quiet w (snd (soft_reset E adb_path w))"
  unfolding soft_reset_def by (rule soft_reset_loop_quiet) (simp add: list_all_iff)

lemma find_by_hwids_quiet: "steps quiet w (snd (find_by_hwids E devcon_path w))"
proof -
  obtain r1 w1 where rc: "run_command E [devcon_path, ''hwids'', ''=usb''] None w = (r1, w1)"
    by (cases "run_command E [devcon_path, ''hwids'', ''=usb''] None w")
  have s1: "steps quiet w w1"
    using rc by (auto intro!: steps_run_command' simp: quiet_def is_probe_def is_hard_reset_event_def)
  have info: "quiet (Log INFO (''Matched device by VID/PID: '' @ h))" for h
    by (simp add: quiet_def is_probe_def is_hard_reset_event_def)
  show ?thesis
    using rc s1 info
    by (auto simp: find_by_hwids_def split: sum.splits option.splits
             intro: steps_then_log)
qed

lemma find_devcon_device_quiet: "steps quiet w (snd (find_devcon_device E devcon_path w))"
proof -
  obtain r1 w1 where rc: "run_command E [devcon_path, ''findall'', ''=usb''] None w = (r1, w1)"
    by (cases "run_command E [devcon_path, ''findall'', ''=usb''] None w")
  have s1: "steps quiet w w1"
    using rc by (auto intro!: steps_run_command' simp: quiet_def is_probe_def is_hard_reset_event_def)
  have info: "quiet (Log INFO (''Matched device by name: '' @ h))" for h
    by (simp add: quiet_def is_probe_def is_hard_reset_event_def)
  show ?thesis
    using rc s1 info find_by_hwids_quiet [of w1 E devcon_path]
    by (auto simp: find_devcon_device_def split: sum.splits option.splits if_splits
             intro: steps_then_log steps_trans)
qed

lemma quiet_no_reset: "steps quiet w w' \<Longrightarrow> steps no_reset w w'"
  by (auto simp: steps_def quiet_def no_reset_def list_all_iff)

lemma is_adb_healthy_True:
  "is_adb_healthy E adb_path serial w = (Inr True, w') \<Longrightarrow> ends_healthy serial (trace w')"
  by (auto simp: is_adb_healthy_def adb_command_def run_command_None Let_def ends_healthy_def
                 is_healthy_observation_def
           split: child.splits option.splits if_splits)

lemma is_adb_healthy_False:
  "is_adb_healthy E adb_path serial w = (Inr False, w') \<Longrightarrow>
     steps (\<lambda>e. no_reset e \<and> \<not> is_healthy_observation serial e) w w'"
  by (auto simp: is_adb_healthy_def adb_command_def run_command_None Let_def
                 is_healthy_observation_def no_reset_def is_hard_reset_event_def
           split: child.splits option.splits if_splits
           intro!: stepsI)

lemma is_adb_healthy_no_reset:
  "steps no_reset w (snd (is_adb_healthy E adb_path serial w))"
  by (auto simp: is_adb_healthy_def adb_command_def run_command_None Let_def
                 no_reset_def is_hard_reset_event_def ADB_HEALTHY_STATE_def
           split: child.splits option.splits if_splits
           intro!: stepsI)

lemma poll_loop_done:
  "\<not> clock (time_time E w) < deadline \<Longrightarrow>
     poll_loop E adb_path serial deadline w = (Inr False, time_time E w)"
  by (subst poll_loop.simps) simp

lemma poll_loop_abort_step:
  "clock (time_time E w) < deadline \<Longrightarrow>
     is_adb_healthy E adb_path serial (time_time E w) = (Inl x, w1) \<Longrightarrow>
     poll_loop E adb_path serial deadline w = (Inl x, w1)"
  by (subst poll_loop.simps) simp

lemma poll_loop_healthy_step:
  "clock (time_time E w) < deadline \<Longrightarrow>
     is_adb_healthy E adb_path serial (time_time E w) = (Inr True, w1) \<Longrightarrow>
     poll_loop E adb_path serial deadline w = (Inr True, w1)"
  by (subst poll_loop.simps) simp

lemma poll_loop_retry_step:
  "clock (time_time E w) < deadline \<Longrightarrow>
     is_adb_healthy E adb_path serial (time_time E w) = (Inr False, w1) \<Longrightarrow>
     poll_loop E adb_path serial deadline w = poll_loop E adb_path serial deadline (sleep E 2 w1)"
  by (subst poll_loop.simps) simp

lemma poll_loop_cases [consumes 1, case_names stop abort healthy retry]:
  assumes run: "poll_loop E adb_path serial deadline w = (r, w')"
    and stop: "\<And>w. \<not> clock (time_time E w) < deadline \<Longrightarrow> P w (Inr False) (time_time E w)"
    and abort: "\<And>w x w1. clock (time_time E w) < deadline \<Longrightarrow>
           is_adb_healthy E adb_path serial (time_time E w) = (Inl x, w1) \<Longrightarrow> P w (Inl x) w1"
    and healthy: "\<And>w w1. clock (time_time E w) < deadline \<Longrightarrow>
           is_adb_healthy E adb_path serial (time_time E w) = (Inr True, w1) \<Longrightarrow>
           P w (Inr True) w1"
    and retry: "\<And>w w1 r w'. clock (time_time E w) < deadline \<Longrightarrow>
           is_adb_healthy E adb_path serial (time_time E w) = (Inr False, w1) \<Longrightarrow>
           poll_loop E adb_path serial deadline (sleep E 2 w1) = (r, w') \<Longrightarrow>
           P (sleep E 2 w1) r w' \<Longrightarrow> P w r w'"
  shows "P w r w'"
  using run
proof (induction "nat (deadline - clock w)" arbitrary: w rule: less_induct)
  case less
  let ?v = "time_time E w"
  show ?case
  proof (cases "clock ?v < deadline")
    case False
    then show ?thesis using less.prems stop [of w] by (auto simp: poll_loop_done)
  next
    case True
    obtain r1 w1 where p: "is_adb_healthy E adb_path serial ?v = (r1, w1)"
      by (cases "is_adb_healthy E adb_path serial ?v")
    show ?thesis
    proof (cases r1)
      case (Inl x)
      then show ?thesis
        using True p less.prems abort [of w x w1] by (auto simp: poll_loop_abort_step)
    next
      case (Inr ok)
      show ?thesis
      proof (cases ok)
        case True
        then show ?thesis
          using \<open>clock ?v < deadline\<close> p Inr less.prems healthy [of w w1]
          by (auto simp: poll_loop_healthy_step)
      next
        case False
        have q: "is_adb_healthy E adb_path serial ?v = (Inr False, w1)"
          using p Inr False by simp
        have next_run: "poll_loop E adb_path serial deadline (sleep E 2 w1) = (r, w')"
          using less.prems poll_loop_retry_step [OF \<open>clock ?v < deadline\<close> q] by simp
        have "clock ?v \<le> clock w1"
          using q by (rule is_adb_healthy_clock)
        then have "nat (deadline - clock (sleep E 2 w1)) < nat (deadline - clock w)"
          using \<open>clock ?v < deadline\<close> by simp
        then have "P (sleep E 2 w1) r w'"
          using next_run by (rule less.hyps)
        then show ?thesis
          by (rule retry [OF \<open>clock ?v < deadline\<close> q next_run])
      qed
    qed
  qed
qed

lemma poll_loop_no_reset:
  "poll_loop E adb_path serial deadline w = (r, w') \<Longrightarrow> steps no_reset w w'"
proof (induction rule: poll_loop_cases)
  case (stop w)
  show ?case by simp
next
  case (abort w x w1)
  then have "steps no_reset (time_time E w) w1"
    using is_adb_healthy_no_reset [of "time_time E w" E adb_path serial] by simp
  then show ?case by (rule steps_trans [OF steps_time])
next
  case (healthy w w1)
  then have "steps no_reset (time_time E w) w1"
    using is_adb_healthy_no_reset [of "time_time E w" E adb_path serial] by simp
  then show ?case by (rule steps_trans [OF steps_time])
next
  case (retry w w1 r w')
  have "steps no_reset (time_time E w) w1"
    using retry(2) is_adb_healthy_no_reset [of "time_time E w" E adb_path serial] by simp
  then have "steps no_reset w w1" by (rule steps_trans [OF steps_time])
  then have "steps no_reset w (sleep E 2 w1)"
    by (rule steps_then_sleep) (simp add: no_reset_def is_hard_reset_event_def)
  then show ?case using retry(4) by (rule steps_trans)
qed

lemma poll_loop_True:
  "poll_loop E adb_path serial deadline w = (r, w') \<Longrightarrow>
     r = Inr True \<Longrightarrow> ends_healthy serial (trace w')"
  by (induction rule: poll_loop_cases) (auto dest: is_adb_healthy_True)

lemma poll_loop_False:
  "poll_loop E adb_path serial deadline w = (r, w') \<Longrightarrow> r = Inr False \<Longrightarrow>
     deadline \<le> clock w'
     \<and> steps (\<lambda>e. no_reset e \<and> \<not> is_healthy_observation serial e) w w'"
proof (induction rule: poll_loop_cases)
  case (stop w)
  then show ?case by simp
next
  case (abort w x w1)
  then show ?case by simp
next
  case (healthy w w1)
  then show ?case by simp
next
  case (retry w w1 r w')
  have "steps (\<lambda>e. no_reset e \<and> \<not> is_healthy_observation serial e) (time_time E w) w1"
    using retry(2) by (rule is_adb_healthy_False)
  then have "steps (\<lambda>e. no_reset e \<and> \<not> is_healthy_observation serial e) w w1"
    by (rule steps_trans [OF steps_time])
  then have "steps (\<lambda>e. no_reset e \<and> \<not> is_healthy_observation serial e) w (sleep E 2 w1)"
    by (rule steps_then_sleep)
       (simp add: no_reset_def is_hard_reset_event_def is_healthy_observation_def)
  then show ?case using retry(4,5) by (auto intro: steps_trans)
qed

lemma hard_reset_False:
  "hard_reset E devcon_path instance_id dry_run w = (Inr False, w') \<Longrightarrow> ends_failed (trace w')"
  by (auto simp: hard_reset_def ends_failed_def split: prod.splits sum.splits if_splits)

lemma hard_reset_no_probe:
  "steps (\<lambda>e. \<not> is_probe e) w (snd (hard_reset E devcon_path instance_id dry_run w))"
proof (cases dry_run)
  case True
  then show ?thesis
    by (auto simp: hard_reset_def is_probe_def intro!: steps_then_log steps_log)
next
  case False
  obtain r1 w1 where d: "run_command E [devcon_path, ''disable'', instance_id] None w = (r1, w1)"
    by (cases "run_command E [devcon_path, ''disable'', instance_id] None w")
  have s1: "steps (\<lambda>e. \<not> is_probe e) w w1"
    using d by (rule steps_run_command') (simp_all add: is_probe_def)
  obtain r2 w2 where e: "run_command E [devcon_path, ''enable'', instance_id] None (sleep E 2 w1) = (r2, w2)"
    by (cases "run_command E [devcon_path, ''enable'', instance_id] None (sleep E 2 w1)")
  have "steps (\<lambda>e. \<not> is_probe e) w (sleep E 2 w1)"
    using s1 by (rule steps_then_sleep) (simp add: is_probe_def)
  moreover have "steps (\<lambda>e. \<not> is_probe e) (sleep E 2 w1) w2"
    using e by (rule steps_run_command') (simp_all add: is_probe_def)
  ultimately have s2: "steps (\<lambda>e. \<not> is_probe e) w w2"
    by (rule steps_trans)
  show ?thesis
    using False d e s1 s2
    by (auto simp: hard_reset_def is_probe_def split: sum.splits intro: steps_then_log)
qed

lemma escalate_cases [consumes 1,
    case_names find_abort not_found hard_abort hard_failed soft_abort poll_abort recovered timed_out]:
  assumes "escalate E a adb_path devcon_path w = (r, w')"
  obtains
    (find_abort) x where
      "find_devcon_device E devcon_path
         (log WARNING ''Soft reset did not recover device; attempting hard reset.'' w) = (Inl x, w')"
      "r = Inl x"
  | (not_found) found w4 where
      "find_devcon_device E devcon_path
         (log WARNING ''Soft reset did not recover device; attempting hard reset.'' w) = (Inr found, w4)"
      "\<not> truthy found"
      "w' = log ERROR ''Unable to locate Android USB device for hard reset.'' w4"
      "r = Inr 1"
  | (hard_abort) found w4 x where
      "find_devcon_device E devcon_path
         (log WARNING ''Soft reset did not recover device; attempting hard reset.'' w) = (Inr found, w4)"
      "truthy found"
      "hard_reset E devcon_path (the found) (arg_dry_run a) w4 = (Inl x, w')"
      "r = Inl x"
  | (hard_failed) found w4 where
      "find_devcon_device E devcon_path
         (log WARNING ''Soft reset did not recover device; attempting hard reset.'' w) = (Inr found, w4)"
      "truthy found"
      "hard_reset E devcon_path (the found) (arg_dry_run a) w4 = (Inr False, w')"
      "r = Inr 1"
  | (soft_abort) found w4 w5 x where
      "find_devcon_device E devcon_path
         (log WARNING ''Soft reset did not recover device; attempting hard reset.'' w) = (Inr found, w4)"
      "truthy found"
      "hard_reset E devcon_path (the found) (arg_dry_run a) w4 = (Inr True, w5)"
      "soft_reset E adb_path w5 = (Inl x, w')"
      "r = Inl x"
  | (poll_abort) found w4 w5 w6 x where
      "find_devcon_device E devcon_path
         (log WARNING ''Soft reset did not recover device; attempting hard reset.'' w) = (Inr found, w4)"
      "truthy found"
      "hard_reset E devcon_path (the found) (arg_dry_run a) w4 = (Inr True, w5)"
      "soft_reset E adb_path w5 = (Inr (), w6)"
      "poll_until_healthy E adb_path (arg_serial a) (arg_timeout a) w6 = (Inl x, w')"
      "r = Inl x"
  | (recovered) found w4 w5 w6 where
      "find_devcon_device E devcon_path
         (log WARNING ''Soft reset did not recover device; attempting hard reset.'' w) = (Inr found, w4)"
      "truthy found"
      "hard_reset E devcon_path (the found) (arg_dry_run a) w4 = (Inr True, w5)"
      "soft_reset E adb_path w5 = (Inr (), w6)"
      "poll_until_healthy E adb_path (arg_serial a) (arg_timeout a) w6 = (Inr True, w')"
      "r = Inr 0"
  | (timed_out) found w4 w5 w6 w7 where
      "find_devcon_device E devcon_path
         (log WARNING ''Soft reset did not recover device; attempting hard reset.'' w) = (Inr found, w4)"
      "truthy found"
      "hard_reset E devcon_path (the found) (arg_dry_run a) w4 = (Inr True, w5)"
      "soft_reset E adb_path w5 = (Inr (), w6)"
      "poll_until_healthy E adb_path (arg_serial a) (arg_timeout a) w6 = (Inr False, w7)"
      "w' = log ERROR ''Device did not recover before timeout.'' w7"
      "r = Inr 1"
  using assms unfolding escalate_def
  by (auto split: prod.splits sum.splits if_splits)

lemma recover_cases [consumes 1,
    case_names probe_abort already_healthy soft_abort poll_abort recovered escalated]:
  assumes "recover E a adb_path devcon_path w = (r, w')"
  obtains
    (probe_abort) x where
      "is_adb_healthy E adb_path (arg_serial a) w = (Inl x, w')"
      "r = Inl x"
  | (already_healthy)
      "is_adb_healthy E adb_path (arg_serial a) w = (Inr True, w')"
      "r = Inr 0"
  | (soft_abort) w1 x where
      "is_adb_healthy E adb_path (arg_serial a) w = (Inr False, w1)"
      "soft_reset E adb_path (log INFO ''Attempting soft reset of ADB server.'' w1) = (Inl x, w')"
      "r = Inl x"
  | (poll_abort) w1 w2 x where
      "is_adb_healthy E adb_path (arg_serial a) w = (Inr False, w1)"
      "soft_reset E adb_path (log INFO ''Attempting soft reset of ADB server.'' w1) = (Inr (), w2)"
      "poll_until_healthy E adb_path (arg_serial a) (arg_timeout a) w2 = (Inl x, w')"
      "r = Inl x"
  | (recovered) w1 w2 where
      "is_adb_healthy E adb_path (arg_serial a) w = (Inr False, w1)"
      "soft_reset E adb_path (log INFO ''Attempting soft reset of ADB server.'' w1) = (Inr (), w2)"
      "poll_until_healthy E adb_path (arg_serial a) (arg_timeout a) w2 = (Inr True, w')"
      "r = Inr 0"
  | (escalated) w1 w2 w3 where
      "is_adb_healthy E adb_path (arg_serial a) w = (Inr False, w1)"
      "soft_reset E adb_path (log INFO ''Attempting soft reset of ADB server.'' w1) = (Inr (), w2)"
      "poll_until_healthy E adb_path (arg_serial a) (arg_timeout a) w2 = (Inr False, w3)"
      "escalate E a adb_path devcon_path w3 = (r, w')"
  using assms unfolding recover_def
  by (auto split: prod.splits sum.splits if_splits)

lemma poll_until_healthy_True:
  "poll_until_healthy E adb_path serial timeout w = (Inr True, w') \<Longrightarrow>
     ends_healthy serial (trace w')"
  unfolding poll_until_healthy_def
  by (auto split: if_splits dest: poll_loop_True)

lemma poll_until_healthy_False:
  assumes "poll_until_healthy E adb_path serial timeout w = (Inr False, w')"
  shows "clock w + 1000 * timeout \<le> clock w'
     \<and> steps (\<lambda>e. no_reset e \<and> \<not> is_healthy_observation serial e) w w'"
proof -
  let ?v = "time_time E w"
  from assms have "poll_loop E adb_path serial (clock ?v + 1000 * timeout) ?v = (Inr False, w')"
    by (simp add: poll_until_healthy_def split: if_splits)
  from poll_loop_False [OF this refl]
  have "clock ?v + 1000 * timeout \<le> clock w'"
    and "steps (\<lambda>e. no_reset e \<and> \<not> is_healthy_observation serial e) ?v w'"
    by simp_all
  then show ?thesis
    by (auto intro: steps_trans [OF steps_time])
qed

lemma poll_until_healthy_no_reset:
  "poll_until_healthy E adb_path serial timeout w = (r, w') \<Longrightarrow> steps no_reset w w'"
  unfolding poll_until_healthy_def
  by (auto split: if_splits dest!: poll_loop_no_reset intro: steps_trans [OF steps_time])

lemma ends_failed_log [simp]:
  "ends_failed (tr @ [Log lvl msg]) =
     (lvl = ERROR
      \<and> (msg = ''Unable to locate Android USB device for hard reset.''
           \<or> prefix ''devcon disable failed: '' msg
           \<or> prefix ''devcon enable failed: '' msg
           \<or> msg = ''Device did not recover before timeout.''))"
  by (simp add: ends_failed_def)

lemma ends_healthy_log_error [simp]: "\<not> ends_healthy serial (tr @ [Log ERROR msg])"
  by (simp add: ends_healthy_def split: list.splits)

lemma escalate_result:
  assumes "escalate E a adb_path devcon_path w = (r, w')"
  shows "(r = Inr 0 \<and> ends_healthy (arg_serial a) (trace w'))
       \<or> (r = Inr 1 \<and> ends_failed (trace w'))
       \<or> (\<exists>x. r = Inl x)"
  using assms
proof (cases rule: escalate_cases)
  case (not_found found w4)
  then show ?thesis by simp
next
  case (hard_failed found w4)
  then show ?thesis using hard_reset_False by auto
next
  case (recovered found w4 w5 w6)
  then show ?thesis using poll_until_healthy_True by auto
next
  case (timed_out found w4 w5 w6 w7)
  then show ?thesis by simp
qed simp_all

lemma recover_result:
  assumes "recover E a adb_path devcon_path w = (r, w')"
  shows "(r = Inr 0 \<and> ends_healthy (arg_serial a) (trace w'))
       \<or> (r = Inr 1 \<and> ends_failed (trace w'))
       \<or> (\<exists>x. r = Inl x)"
  using assms
proof (cases rule: recover_cases)
  case already_healthy
  then show ?thesis using is_adb_healthy_True by auto
next
  case (recovered w1 w2)
  then show ?thesis using poll_until_healthy_True by auto
next
  case (escalated w1 w2 w3)
  then show ?thesis using escalate_result by blast
qed simp_all

lemma main_gate:
  "main E a w =
     (if \<not> is_windows_admin E
      then (Inr 3, log ERROR ''Administrator privileges are required on Windows.'' w)
      else if \<not> tools_resolved E a
      then (Inr 2, log ERROR
              (if \<not> truthy (resolve_executable E (arg_adb_path a))
               then ''adb.exe not found at '' @ arg_adb_path a
               else ''devcon.exe not found at '' @ arg_devcon_path a) w)
      else recover E a (the (resolve_executable E (arg_adb_path a)))
             (the (resolve_executable E (arg_devcon_path a))) w)"
  by (simp add: main_def tools_resolved_def Let_def)

lemma ends_healthyD:
  assumes "ends_healthy serial tr"
  shows "\<exists>pre adb_path ms out err.
           tr = pre @ [Ran [adb_path, ''devices''] (Exits ms 0 out err),
                       Log INFO ''ADB device is healthy (device).'']
           \<and> parse_adb_devices out serial = Some ''device''"
proof -
  from assms obtain l e rest where r: "rev tr = l # e # rest"
    and l: "l = Log INFO ''ADB device is healthy (device).''"
    and e: "is_healthy_observation serial e"
    by (auto simp: ends_healthy_def ADB_HEALTHY_STATE_def split: list.splits)
  from e obtain command ms out err where c: "e = Ran command (Exits ms 0 out err)"
    and t: "tl command = [''devices'']"
    and p: "parse_adb_devices out serial = Some ''device''"
    by (auto simp: is_healthy_observation_def ADB_HEALTHY_STATE_def
             split: event.splits child.splits)
  from t obtain adb_path where "command = [adb_path, ''devices'']"
    by (cases command) auto
  moreover have "tr = rev rest @ [e, l]"
    using r by (metis rev_rev_ident rev.simps append_Cons append_Nil append_assoc)
  ultimately show ?thesis using c l p by blast
qed

lemma main_gate_closed:
  "\<not> (is_windows_admin E \<and> tools_resolved E a) \<Longrightarrow>
     \<exists>msg. snd (main E a w) = log ERROR msg w"
  by (auto simp: main_gate)

lemma steps_weaken: "steps P w w' \<Longrightarrow> (\<And>e. P e \<Longrightarrow> Q e) \<Longrightarrow> steps Q w w'"
  by (auto simp: steps_def list_all_iff)

lemma steps_prefix: "steps P w w' \<Longrightarrow> prefix (trace w) (trace w')"
  by (simp add: steps_def)

lemma steps_since: "steps P w w' \<Longrightarrow> list_all P (since w w')"
  by (simp add: steps_def)

lemma soft_reset_loop_returned:
  "soft_reset_loop E adb_path cmds w = (Inr u, w') \<Longrightarrow>
     \<exists>evs. trace w' = trace w @ evs \<and> commands evs = map ((#) adb_path) cmds"
proof (induction cmds arbitrary: w)
  case Nil
  then show ?case by simp
next
  case (Cons args rest)
  obtain r1 w1 where rc: "run_command E (adb_path # args) None w = (r1, w1)"
    by (cases "run_command E (adb_path # args) None w")
  have t1: "trace w1 = trace w @ [Log DEBUG (''Running command: '' @ join '' '' (adb_path # args)),
                                  Ran (adb_path # args) (child_of E w (adb_path # args))]"
    using run_command_trace [of E "adb_path # args" None w] rc by simp
  show ?case
  proof (cases r1)
    case (Inl x)
    then show ?thesis using Cons.prems rc by (simp add: adb_command_def)
  next
    case (Inr result)
    let ?w2 = "if returncode result \<noteq> 0
               then log WARNING (''adb '' @ join '' '' args @ '' failed: '' @ strip (stderr result)) w1
               else w1"
    have "soft_reset_loop E adb_path rest ?w2 = (Inr u, w')"
      using Cons.prems rc Inr by (simp add: adb_command_def)
    from Cons.IH [OF this] obtain evs where
      t: "trace w' = trace ?w2 @ evs" and k: "commands evs = map ((#) adb_path) rest"
      by blast
    have "\<exists>pre. trace ?w2 = trace w @ pre \<and> commands pre = [adb_path # args]"
      using t1 by simp
    then obtain pre where p: "trace ?w2 = trace w @ pre" "commands pre = [adb_path # args]"
      by blast
    have "trace w' = trace w @ (pre @ evs)" using t p by simp
    moreover have "commands (pre @ evs) = map ((#) adb_path) (args # rest)"
      using p k by simp
    ultimately show ?thesis by blast
  qed
qed

lemma soft_reset_returned:
  "soft_reset E adb_path w = (Inr u, w') \<Longrightarrow>
     commands (since w w') =
       [[adb_path, ''kill-server''], [adb_path, ''start-server''], [adb_path, ''reconnect'']]"
  unfolding soft_reset_def
  by (drule soft_reset_loop_returned) (auto simp: since_append ADB_SOFT_RESET_COMMANDS_def)

lemma quiet_no_probe: "quiet e \<Longrightarrow> \<not> is_probe e"
  by (simp add: quiet_def)

lemma escalate_steps:
  assumes run: "escalate E a adb_path devcon_path w = (r, w')"
    and P: "\<And>e. \<not> is_probe e \<Longrightarrow> P e"
    and poll: "\<And>w6 rp w7.
      poll_until_healthy E adb_path (arg_serial a) (arg_timeout a) w6 = (rp, w7) \<Longrightarrow>
      steps P w6 w7"
  shows "steps P w w'"
proof -
  let ?warn = "log WARNING ''Soft reset did not recover device; attempting hard reset.'' w"
  have l: "P (Log lvl msg)" for lvl msg
    by (rule P) (simp add: is_probe_def)
  have f: "steps P w w4" if "find_devcon_device E devcon_path ?warn = (rf, w4)" for rf w4
  proof -
    have "steps P w ?warn"
      by (rule steps_log) (rule l)
    moreover have "steps quiet ?warn w4"
      using find_devcon_device_quiet [of ?warn E devcon_path] that by simp
    then have "steps P ?warn w4"
      by (rule steps_weaken) (rule P, rule quiet_no_probe)
    ultimately show ?thesis by (rule steps_trans)
  qed
  have h: "steps P w4 w5" if "hard_reset E devcon_path i d w4 = (rh, w5)" for i d w4 rh w5
  proof -
    have "steps (\<lambda>e. \<not> is_probe e) w4 w5"
      using hard_reset_no_probe [of w4 E devcon_path i d] that by simp
    then show ?thesis by (rule steps_weaken) (rule P)
  qed
  have s: "steps P w5 w6" if "soft_reset E adb_path w5 = (rs, w6)" for w5 rs w6
  proof -
    have "steps quiet w5 w6"
      using soft_reset_quiet [of w5 E adb_path] that by simp
    then show ?thesis by (rule steps_weaken) (rule P, rule quiet_no_probe)
  qed
  show ?thesis
    using run
  proof (cases rule: escalate_cases)
    case (find_abort x)
    then show ?thesis by (simp add: f)
  next
    case (not_found found w4)
    have "steps P w w4" using not_found(1) by (rule f)
    then show ?thesis unfolding not_found(3) by (rule steps_then_log) (rule l)
  next
    case (hard_abort found w4 x)
    show ?thesis
      by (rule steps_trans [OF f [OF hard_abort(1)] h [OF hard_abort(3)]])
  next
    case (hard_failed found w4)
    show ?thesis
      by (rule steps_trans [OF f [OF hard_failed(1)] h [OF hard_failed(3)]])
  next
    case (soft_abort found w4 w5 x)
    show ?thesis
      by (rule steps_trans [OF steps_trans [OF f [OF soft_abort(1)] h [OF soft_abort(3)]]
                s [OF soft_abort(4)]])
  next
    case (poll_abort found w4 w5 w6 x)
    show ?thesis
      by (rule steps_trans [OF steps_trans [OF steps_trans [OF f [OF poll_abort(1)]
                h [OF poll_abort(3)]] s [OF poll_abort(4)]] poll [OF poll_abort(5)]])
  next
    case (recovered found w4 w5 w6)
    show ?thesis
      by (rule steps_trans [OF steps_trans [OF steps_trans [OF f [OF recovered(1)]
                h [OF recovered(3)]] s [OF recovered(4)]] poll [OF recovered(5)]])
  next
    case (timed_out found w4 w5 w6 w7)
    have "steps P w w7"
      by (rule steps_trans [OF steps_trans [OF steps_trans [OF f [OF timed_out(1)]
                h [OF timed_out(3)]] s [OF timed_out(4)]] poll [OF timed_out(5)]])
    then show ?thesis unfolding timed_out(6) by (rule steps_then_log) (rule l)
  qed
qed

lemma escalate_extends:
  assumes "escalate E a adb_path devcon_path w = (r, w')"
  shows "prefix (trace w) (trace w')"
proof -
  have "steps (\<lambda>e. True) w w'"
    using assms
  proof (rule escalate_steps)
    fix w6 rp w7
    assume "poll_until_healthy E adb_path (arg_serial a) (arg_timeout a) w6 = (rp, w7)"
    then show "steps (\<lambda>e. True) w6 w7"
      by (auto dest: poll_until_healthy_no_reset intro: steps_weaken)
  qed simp
  then show ?thesis by (rule steps_prefix)
qed

lemma no_hard_reset: "list_all no_reset evs \<Longrightarrow> \<not> list_ex is_hard_reset_event evs"
  by (simp add: list_all_iff list_ex_iff no_reset_def)

lemma no_reset_log_attempt: "no_reset (Log INFO ''Attempting soft reset of ADB server.'')"
  by (simp add: no_reset_def is_hard_reset_event_def)

section \<open>Aborts are accounted for\<close>

lemma accounted_Inr: "accounted (Inr v) w w' = steps exited_event w w'"
  by (simp add: accounted_def steps_def)

lemma raised_by_append: "ys \<noteq> [] \<Longrightarrow> raised_by x (xs @ ys) = raised_by x ys"
  by (cases ys rule: rev_cases) (simp_all add: raised_by_def)

lemma raised_by_nonempty: "raised_by x evs \<Longrightarrow> evs \<noteq> []"
  by (auto simp: raised_by_def)

lemma accounted_after:
  assumes "steps exited_event w w1" and "accounted r w1 w'"
  shows "accounted r w w'"
proof -
  from assms(1) obtain xs where xs: "trace w1 = trace w @ xs" "list_all exited_event xs"
    by (auto dest: stepsD)
  from assms(2) obtain ys where ys: "trace w' = trace w1 @ ys"
    by (auto simp: accounted_def prefix_def)
  have s1: "since w1 w' = ys" using ys by (simp add: since_append)
  have s: "since w w' = xs @ ys" using xs ys by (simp add: since_append)
  show ?thesis
  proof (cases r)
    case (Inr v)
    then show ?thesis using assms(2) xs ys s s1 by (simp add: accounted_def)
  next
    case (Inl x)
    show ?thesis
    proof (cases "x = OverflowError")
      case True
      then show ?thesis using assms(2) Inl xs ys s s1 by (simp add: accounted_def)
    next
      case False
      then have r: "raised_by x ys" and b: "list_all exited_event (butlast ys)"
        using assms(2) Inl s1 by (simp_all add: accounted_def)
      from r have "ys \<noteq> []" by (rule raised_by_nonempty)
      then show ?thesis
        using Inl False r b xs ys s
        by (simp add: accounted_def raised_by_append butlast_append)
    qed
  qed
qed

lemma accounted_run_command:
  "run_command E command None w = (r, w') \<Longrightarrow> accounted r w w'"
  by (auto simp: run_command_None Let_def accounted_def since_append raised_by_def
                 exited_event_def prefix_def
           split: child.splits)

lemma accounted_log: "accounted (Inr v) w w1 \<Longrightarrow> accounted (Inr v') w (log lvl msg w1)"
  unfolding accounted_Inr by (erule steps_then_log) (simp add: exited_event_def)

lemma accounted_refl [simp]: "accounted (Inr v) w w"
  by (simp add: accounted_Inr)

lemma accounted_cast: "accounted (Inl x :: abort + 'a) w w' \<Longrightarrow> accounted (Inl x :: abort + 'b) w w'"
  by (simp add: accounted_def)

lemma accounted_value: "accounted (Inr v) w w' \<Longrightarrow> accounted (Inr v') w w'"
  by (simp add: accounted_Inr)

lemma is_adb_healthy_accounted:
  "is_adb_healthy E adb_path serial w = (r, w') \<Longrightarrow> accounted r w w'"
  by (auto simp: is_adb_healthy_def adb_command_def split: prod.splits sum.splits option.splits if_splits
           dest!: accounted_run_command intro: accounted_log accounted_cast)


lemma soft_reset_loop_accounted:
  "soft_reset_loop E adb_path cmds w = (r, w') \<Longrightarrow> accounted r w w'"
proof (induction cmds arbitrary: w)
  case Nil
  then show ?case by auto
next
  case (Cons args rest)
  obtain r1 w1 where rc: "run_command E (adb_path # args) None w = (r1, w1)"
    by (cases "run_command E (adb_path # args) None w")
  have a1: "accounted r1 w w1" using rc by (rule accounted_run_command)
  show ?case
  proof (cases r1)
    case (Inl x)
    then show ?thesis
      using Cons.prems rc a1 by (auto simp: adb_command_def intro: accounted_cast)
  next
    case (Inr result)
    let ?w2 = "if returncode result \<noteq> 0
               then log WARNING (''adb '' @ join '' '' args @ '' failed: '' @ strip (stderr result)) w1
               else w1"
    have "accounted (Inr ()) w ?w2"
      using a1 Inr by (auto intro: accounted_log accounted_value)
    then have "steps exited_event w ?w2" by (simp add: accounted_Inr)
    moreover have "soft_reset_loop E adb_path rest ?w2 = (r, w')"
      using Cons.prems rc Inr by (simp add: adb_command_def)
    then have "accounted r ?w2 w'" by (rule Cons.IH)
    ultimately show ?thesis by (rule accounted_after)
  qed
qed

lemma soft_reset_accounted: "soft_reset E adb_path w = (r, w') \<Longrightarrow> accounted r w w'"
  unfolding soft_reset_def by (rule soft_reset_loop_accounted)

lemma find_by_hwids_accounted:
  "find_by_hwids E devcon_path w = (r, w') \<Longrightarrow> accounted r w w'"
  by (auto simp: find_by_hwids_def split: prod.splits sum.splits option.splits if_splits
           dest!: accounted_run_command intro: accounted_log accounted_cast accounted_value)

lemma find_devcon_device_accounted:
  assumes "find_devcon_device E devcon_path w = (r, w')"
  shows "accounted r w w'"
proof -
  obtain r1 w1 where rc: "run_command E [devcon_path, ''findall'', ''=usb''] None w = (r1, w1)"
    by (cases "run_command E [devcon_path, ''findall'', ''=usb''] None w")
  have a1: "accounted r1 w w1" using rc by (rule accounted_run_command)
  show ?thesis
  proof (cases r1)
    case (Inl x)
    then show ?thesis
      using assms rc a1 by (auto simp: find_devcon_device_def intro: accounted_cast)
  next
    case (Inr findall)
    then have s1: "steps exited_event w w1" using a1 by (simp add: accounted_Inr)
    show ?thesis
    proof (cases "if returncode findall = 0
                  then match_by_name (parse_devcon_findall (stdout findall)) else None")
      case None
      then have "find_by_hwids E devcon_path w1 = (r, w')"
        using assms rc Inr by (simp add: find_devcon_device_def)
      then have "accounted r w1 w'" by (rule find_by_hwids_accounted)
      with s1 show ?thesis by (rule accounted_after)
    next
      case (Some m)
      then show ?thesis
        using assms rc Inr a1
        by (auto simp: find_devcon_device_def split: prod.splits intro: accounted_log)
    qed
  qed
qed

lemma hard_reset_accounted:
  assumes "hard_reset E devcon_path instance_id dry_run w = (r, w')"
  shows "accounted r w w'"
proof (cases dry_run)
  case True
  then show ?thesis
    using assms
    by (auto simp: hard_reset_def accounted_Inr exited_event_def intro!: steps_then_log)
next
  case False
  obtain r1 w1 where d: "run_command E [devcon_path, ''disable'', instance_id] None w = (r1, w1)"
    by (cases "run_command E [devcon_path, ''disable'', instance_id] None w")
  have a1: "accounted r1 w w1" using d by (rule accounted_run_command)
  show ?thesis
  proof (cases r1)
    case (Inl x)
    then show ?thesis
      using assms False d a1 by (auto simp: hard_reset_def intro: accounted_cast)
  next
    case (Inr disable)
    show ?thesis
    proof (cases "returncode disable \<noteq> 0")
      case True
      then show ?thesis
        using assms False d Inr a1 by (auto simp: hard_reset_def intro: accounted_log)
    next
      case ok: False
      obtain r2 w2 where e:
        "run_command E [devcon_path, ''enable'', instance_id] None (sleep E 2 w1) = (r2, w2)"
        by (cases "run_command E [devcon_path, ''enable'', instance_id] None (sleep E 2 w1)")
      have "steps exited_event w w1" using a1 Inr by (simp add: accounted_Inr)
      then have s: "steps exited_event w (sleep E 2 w1)"
        by (rule steps_then_sleep) (simp add: exited_event_def)
      have "accounted r2 (sleep E 2 w1) w2" using e by (rule accounted_run_command)
      with s have a2: "accounted r2 w w2" by (rule accounted_after)
      show ?thesis
        using assms False d Inr ok e a2
        by (auto simp: hard_reset_def split: sum.splits if_splits
                 intro: accounted_log accounted_cast accounted_value)
    qed
  qed
qed

lemma poll_loop_accounted:
  "poll_loop E adb_path serial deadline w = (r, w') \<Longrightarrow> accounted r w w'"
proof (induction rule: poll_loop_cases)
  case (stop w)
  show ?case by (simp add: accounted_Inr)
next
  case (abort w x w1)
  have "accounted (Inl x :: abort + bool) (time_time E w) w1"
    using abort(2) by (rule is_adb_healthy_accounted)
  then show ?case by (rule accounted_after [OF steps_time])
next
  case (healthy w w1)
  have "accounted (Inr True) (time_time E w) w1"
    using healthy(2) by (rule is_adb_healthy_accounted)
  then show ?case by (rule accounted_after [OF steps_time])
next
  case (retry w w1 r w')
  have "accounted (Inr False) (time_time E w) w1"
    using retry(2) by (rule is_adb_healthy_accounted)
  then have "steps exited_event (time_time E w) w1" by (simp add: accounted_Inr)
  then have "steps exited_event w w1" by (rule steps_trans [OF steps_time])
  then have "steps exited_event w (sleep E 2 w1)"
    by (rule steps_then_sleep) (simp add: exited_event_def)
  then show ?case using retry(4) by (rule accounted_after)
qed

lemma poll_until_healthy_accounted:
  assumes "poll_until_healthy E adb_path serial timeout w = (r, w')"
  shows "accounted r w w'"
proof (cases "float_overflow timeout")
  case True
  then show ?thesis
    using assms by (auto simp: poll_until_healthy_def accounted_def since_def)
next
  case False
  then have "accounted r (time_time E w) w'"
    using assms by (auto simp: poll_until_healthy_def dest: poll_loop_accounted)
  then show ?thesis by (rule accounted_after [OF steps_time])
qed


lemma accounted_chain:
  "accounted (Inr v) w w1 \<Longrightarrow> accounted r w1 w' \<Longrightarrow> accounted r w w'"
  unfolding accounted_Inr by (rule accounted_after)

lemma accounted_log_first: "accounted (Inr ()) w (log lvl msg w)"
  by (rule accounted_log [where v = "()"]) simp

lemma escalate_accounted:
  assumes "escalate E a adb_path devcon_path w = (r, w')"
  shows "accounted r w w'"
proof -
  let ?warn = "log WARNING ''Soft reset did not recover device; attempting hard reset.'' w"
  note W = accounted_log_first [of w WARNING "''Soft reset did not recover device; attempting hard reset.''"]
  note F = find_devcon_device_accounted
  note H = hard_reset_accounted
  note S = soft_reset_accounted
  note P = poll_until_healthy_accounted
  from assms show ?thesis
  proof (cases rule: escalate_cases)
    case (find_abort x)
    have "accounted (Inl x :: abort + int) w w'"
      by (rule accounted_chain [OF W accounted_cast [OF F [OF find_abort(1)]]])
    then show ?thesis using find_abort(2) by simp
  next
    case (not_found found w4)
    have "accounted (Inr found) w w4"
      by (rule accounted_chain [OF W F [OF not_found(1)]])
    then show ?thesis unfolding not_found(3,4) by (rule accounted_log)
  next
    case (hard_abort found w4 x)
    have "accounted (Inl x :: abort + int) w w'"
      by (rule accounted_chain [OF accounted_chain [OF W F [OF hard_abort(1)]]
                accounted_cast [OF H [OF hard_abort(3)]]])
    then show ?thesis using hard_abort(4) by simp
  next
    case (hard_failed found w4)
    have "accounted (Inr False) w w'"
      by (rule accounted_chain [OF accounted_chain [OF W F [OF hard_failed(1)]]
                H [OF hard_failed(3)]])
    then show ?thesis unfolding hard_failed(4) by (rule accounted_value)
  next
    case (soft_abort found w4 w5 x)
    have "accounted (Inl x :: abort + int) w w'"
      by (rule accounted_chain [OF accounted_chain [OF accounted_chain [OF W F [OF soft_abort(1)]]
                H [OF soft_abort(3)]] accounted_cast [OF S [OF soft_abort(4)]]])
    then show ?thesis using soft_abort(5) by simp
  next
    case (poll_abort found w4 w5 w6 x)
    have "accounted (Inl x :: abort + int) w w'"
      by (rule accounted_chain [OF accounted_chain [OF accounted_chain [OF accounted_chain
                [OF W F [OF poll_abort(1)]] H [OF poll_abort(3)]] S [OF poll_abort(4)]]
                accounted_cast [OF P [OF poll_abort(5)]]])
    then show ?thesis using poll_abort(6) by simp
  next
    case (recovered found w4 w5 w6)
    have "accounted (Inr True) w w'"
      by (rule accounted_chain [OF accounted_chain [OF accounted_chain [OF accounted_chain
                [OF W F [OF recovered(1)]] H [OF recovered(3)]] S [OF recovered(4)]]
                P [OF recovered(5)]])
    then show ?thesis unfolding recovered(6) by (rule accounted_value)
  next
    case (timed_out found w4 w5 w6 w7)
    have "accounted (Inr False) w w7"
      by (rule accounted_chain [OF accounted_chain [OF accounted_chain [OF accounted_chain
                [OF W F [OF timed_out(1)]] H [OF timed_out(3)]] S [OF timed_out(4)]]
                P [OF timed_out(5)]])
    then show ?thesis unfolding timed_out(6,7) by (rule accounted_log)
  qed
qed

lemma recover_accounted:
  assumes "recover E a adb_path devcon_path w = (r, w')"
  shows "accounted r w w'"
proof -
  note A = is_adb_healthy_accounted
  note S = soft_reset_accounted
  note P = poll_until_healthy_accounted
  have L: "accounted (Inr ()) w w1 \<Longrightarrow>
      accounted (Inr ()) w (log INFO ''Attempting soft reset of ADB server.'' w1)" for w1
    by (rule accounted_log)
  from assms show ?thesis
  proof (cases rule: recover_cases)
    case (probe_abort x)
    have "accounted (Inl x :: abort + int) w w'"
      by (rule accounted_cast [OF A [OF probe_abort(1)]])
    then show ?thesis using probe_abort(2) by simp
  next
    case already_healthy
    have "accounted (Inr True) w w'" by (rule A [OF already_healthy(1)])
    then show ?thesis unfolding already_healthy(2) by (rule accounted_value)
  next
    case (soft_abort w1 x)
    have "accounted (Inl x :: abort + int) w w'"
      by (rule accounted_chain [OF L [OF accounted_value [OF A [OF soft_abort(1)]]]
                accounted_cast [OF S [OF soft_abort(2)]]])
    then show ?thesis using soft_abort(3) by simp
  next
    case (poll_abort w1 w2 x)
    have "accounted (Inl x :: abort + int) w w'"
      by (rule accounted_chain [OF accounted_chain [OF L [OF accounted_value [OF A [OF poll_abort(1)]]]
                S [OF poll_abort(2)]] accounted_cast [OF P [OF poll_abort(3)]]])
    then show ?thesis using poll_abort(4) by simp
  next
    case (recovered w1 w2)
    have "accounted (Inr True) w w'"
      by (rule accounted_chain [OF accounted_chain [OF L [OF accounted_value [OF A [OF recovered(1)]]]
                S [OF recovered(2)]] P [OF recovered(3)]])
    then show ?thesis unfolding recovered(4) by (rule accounted_value)
  next
    case (escalated w1 w2 w3)
    show ?thesis
      by (rule accounted_chain [OF accounted_chain [OF accounted_chain
                [OF L [OF accounted_value [OF A [OF escalated(1)]]]
                S [OF escalated(2)]] P [OF escalated(3)]] escalate_accounted [OF escalated(4)]])
  qed
qed

lemma main_accounted: "main E a w = (r, w') \<Longrightarrow> accounted r w w'"
  by (auto simp: main_gate split: if_splits
           intro: recover_accounted accounted_log_first [THEN accounted_value])

lemma accounted_launch_failure:
  assumes "accounted r w w'" and "Ran command LaunchFails \<in> set (since w w')"
  shows "r = Inl OSError"
proof -
  have bad: "\<not> exited_event (Ran command LaunchFails)" by (simp add: exited_event_def)
  show ?thesis
  proof (cases r)
    case (Inr v)
    then show ?thesis using assms bad by (auto simp: accounted_def list_all_iff)
  next
    case (Inl x)
    show ?thesis
    proof (cases "x = OverflowError")
      case True
      then show ?thesis using assms bad Inl by (auto simp: accounted_def list_all_iff)
    next
      case False
      then have b: "list_all exited_event (butlast (since w w'))"
        and r: "raised_by x (since w w')"
        using assms(1) Inl by (simp_all add: accounted_def)
      from r obtain evs e where s: "since w w' = evs @ [e]"
        by (cases "since w w'" rule: rev_cases) (auto simp: raised_by_def)
      with b assms(2) bad have "e = Ran command LaunchFails"
        by (auto simp: list_all_iff)
      with r s have "x = OSError" by (simp add: raised_by_def)
      then show ?thesis using Inl by simp
    qed
  qed
qed

section \<open>The outcomes of the orchestrator\<close>

lemma outcome_to_recover:
  assumes "spec_outcome E a adb_path devcon_path w out w'"
  shows "recover E a adb_path devcon_path w = (Inr (exit_code out), w')"
  using assms
  by cases
     (auto simp: recover_def escalate_def
           elim!: hard_reset_done.cases soft_reset_exhausted.cases)

lemma recover_to_outcome:
  assumes "recover E a adb_path devcon_path w = (Inr code, w')"
  shows "\<exists>out. spec_outcome E a adb_path devcon_path w out w' \<and> exit_code out = code"
  using assms
proof (cases rule: recover_cases)
  case already_healthy
  then show ?thesis
    using spec_outcome.already_healthy [of E adb_path a w w' devcon_path] by auto
next
  case (recovered w1 w2)
  then show ?thesis
    using spec_outcome.recovered_by_soft_reset [of E adb_path a w w1 "()" w2 w' devcon_path]
    by auto
next
  case (escalated w1 w2 w3)
  have ex: "soft_reset_exhausted E a adb_path w w3"
    using escalated(1-3) by (auto intro: soft_reset_exhausted.intros)
  from escalated(4) show ?thesis
  proof (cases rule: escalate_cases)
    case (not_found found w4)
    then show ?thesis
      using spec_outcome.device_not_found [OF ex not_found(1,2)] assms by auto
  next
    case (hard_failed found w4)
    then show ?thesis
      using spec_outcome.hard_reset_failed [OF ex hard_failed(1,2,3)] assms by auto
  next
    case (recovered found w4 w5 w6)
    have "hard_reset_done E a adb_path devcon_path w w6"
      using ex recovered(1-4) by (auto intro: hard_reset_done.intros)
    then have "spec_outcome E a adb_path devcon_path w RecoveredByHardReset w'"
      using recovered(5) by (rule spec_outcome.recovered_by_hard_reset)
    then show ?thesis
      using recovered(6) assms by (intro exI [of _ RecoveredByHardReset]) simp
  next
    case (timed_out found w4 w5 w6 w7)
    have "hard_reset_done E a adb_path devcon_path w w6"
      using ex timed_out(1-4) by (auto intro: hard_reset_done.intros)
    then have "spec_outcome E a adb_path devcon_path w TimedOut
        (log ERROR ''Device did not recover before timeout.'' w7)"
      using timed_out(5) by (rule spec_outcome.timed_out)
    then show ?thesis
      using timed_out(6,7) assms by (intro exI [of _ TimedOut]) simp
  qed (use assms in simp_all)
qed simp_all


lemma spec_outcome_unique:
  assumes "spec_outcome E a adb_path devcon_path w out1 w1"
    and "spec_outcome E a adb_path devcon_path w out2 w2"
  shows "out1 = out2 \<and> w1 = w2"
  using assms
  by (auto elim!: spec_outcome.cases hard_reset_done.cases soft_reset_exhausted.cases)

lemma run_command_no_overflow:
  "run_command E command None w = (Inl x, w') \<Longrightarrow> x \<noteq> OverflowError"
  by (auto simp: run_command_None Let_def split: child.splits)

lemma is_adb_healthy_no_overflow:
  "is_adb_healthy E adb_path serial w = (Inl x, w') \<Longrightarrow> x \<noteq> OverflowError"
  by (auto simp: is_adb_healthy_def adb_command_def
           split: prod.splits sum.splits option.splits if_splits dest: run_command_no_overflow)

lemma soft_reset_loop_no_overflow:
  "soft_reset_loop E adb_path cmds w = (Inl x, w') \<Longrightarrow> x \<noteq> OverflowError"
proof (induction cmds arbitrary: w)
  case Nil
  then show ?case by simp
next
  case (Cons args rest)
  then show ?case
    by (auto simp: adb_command_def split: prod.splits sum.splits dest: run_command_no_overflow)
qed

lemma soft_reset_no_overflow:
  "soft_reset E adb_path w = (Inl x, w') \<Longrightarrow> x \<noteq> OverflowError"
  unfolding soft_reset_def by (rule soft_reset_loop_no_overflow)

lemma find_by_hwids_no_overflow:
  "find_by_hwids E devcon_path w = (Inl x, w') \<Longrightarrow> x \<noteq> OverflowError"
  by (auto simp: find_by_hwids_def split: prod.splits sum.splits option.splits if_splits
           dest: run_command_no_overflow)

lemma find_devcon_device_no_overflow:
  "find_devcon_device E devcon_path w = (Inl x, w') \<Longrightarrow> x \<noteq> OverflowError"
  by (auto simp: find_devcon_device_def split: prod.splits sum.splits option.splits if_splits
           dest: run_command_no_overflow find_by_hwids_no_overflow)

lemma hard_reset_no_overflow:
  "hard_reset E devcon_path instance_id dry_run w = (Inl x, w') \<Longrightarrow> x \<noteq> OverflowError"
  by (auto simp: hard_reset_def split: prod.splits sum.splits if_splits
           dest: run_command_no_overflow)

lemma poll_loop_no_overflow:
  "poll_loop E adb_path serial deadline w = (r, w') \<Longrightarrow> r \<noteq> Inl OverflowError"
  by (induction rule: poll_loop_cases) (auto dest: is_adb_healthy_no_overflow)

lemma poll_until_healthy_overflow:
  "poll_until_healthy E adb_path serial timeout w = (Inl OverflowError, w') \<Longrightarrow>
     float_overflow timeout"
  by (auto simp: poll_until_healthy_def split: if_splits dest: poll_loop_no_overflow)

lemma escalate_overflow:
  assumes "escalate E a adb_path devcon_path w = (Inl OverflowError, w')"
  shows "float_overflow (arg_timeout a)"
  using assms
proof (cases rule: escalate_cases)
  case (find_abort x)
  then show ?thesis using find_devcon_device_no_overflow by blast
next
  case (hard_abort found w4 x)
  then show ?thesis using hard_reset_no_overflow by blast
next
  case (soft_abort found w4 w5 x)
  then show ?thesis using soft_reset_no_overflow by blast
next
  case (poll_abort found w4 w5 w6 x)
  then show ?thesis using poll_until_healthy_overflow by blast
qed simp_all

lemma recover_overflow:
  assumes "recover E a adb_path devcon_path w = (Inl OverflowError, w')"
  shows "float_overflow (arg_timeout a)"
  using assms
proof (cases rule: recover_cases)
  case (probe_abort x)
  then show ?thesis using is_adb_healthy_no_overflow by blast
next
  case (soft_abort w1 x)
  then show ?thesis using soft_reset_no_overflow by blast
next
  case (poll_abort w1 w2 x)
  then show ?thesis using poll_until_healthy_overflow by blast
next
  case (escalated w1 w2 w3)
  then show ?thesis using escalate_overflow by blast
qed simp_all

lemma main_abort:
  assumes "main E a w = (Inl x, w')"
  shows "is_windows_admin E \<and> tools_resolved E a
    \<and> ((x = OverflowError \<and> float_overflow (arg_timeout a)) \<or> raised_by x (since w w'))"
proof -
  have g: "is_windows_admin E \<and> tools_resolved E a"
    using assms by (auto simp: main_gate split: if_splits)
  then have "recover E a (the (resolve_executable E (arg_adb_path a)))
               (the (resolve_executable E (arg_devcon_path a))) w = (Inl x, w')"
    using assms by (simp add: main_gate)
  from recover_overflow [of E a _ _ w w'] this
  have o: "x = OverflowError \<Longrightarrow> float_overflow (arg_timeout a)" by simp
  have "accounted (Inl x :: abort + int) w w'"
    using assms by (rule main_accounted)
  then have "x = OverflowError \<or> raised_by x (since w w')"
    by (auto simp: accounted_def split: if_splits)
  with g o show ?thesis by blast
qed

section \<open>The parser selects the first matching record\<close>

lemma scan_adb_lines_find:
  "scan_adb_lines lines serial =
     map_option (\<lambda>fields. fields ! 1)
       (find (\<lambda>fields. if truthy serial then hd fields = the serial else True)
          (filter (\<lambda>fields. 2 \<le> length fields)
             (map split_ws
                (filter (\<lambda>line. \<not> startswith (lower line) ''list of devices'') lines))))"
proof (induction lines)
  case Nil
  show ?case by simp
next
  case (Cons line rest)
  show ?case
  proof (cases "startswith (lower line) ''list of devices''")
    case True
    then show ?thesis using Cons.IH by simp
  next
    case False
    show ?thesis
    proof (cases "split_ws line")
      case Nil
      then show ?thesis using False Cons.IH by simp
    next
      case (Cons device_serial more)
      note outer = this
      show ?thesis
      proof (cases more)
        case Nil
        then show ?thesis using False outer Cons.IH by simp
      next
        case (Cons state others)
        then show ?thesis
          using False outer Cons.IH
          by (cases serial) (simp_all add: truthy_def)
      qed
    qed
  qed
qed

lemma parse_adb_devices_spec: "parse_adb_devices output serial = spec_state output serial"
  by (simp add: parse_adb_devices_def spec_state_def spec_selected_def spec_records_def
        scan_adb_lines_find)

lemma split_ws_no_empty: "[] \<notin> set (split_ws s)"
proof (induction s)
  case Nil
  show ?case by simp
next
  case (Cons c cs)
  show ?case
  proof (cases "isspace c")
    case True
    then show ?thesis using Cons.IH by simp
  next
    case False
    show ?thesis
    proof (cases cs)
      case Nil
      then show ?thesis using False by simp
    next
      case (Cons d ds)
      show ?thesis
      proof (cases "isspace d")
        case True
        then show ?thesis using False Cons Cons.IH \<open>[] \<notin> set (split_ws cs)\<close> by simp
      next
        case nd: False
        show ?thesis
        proof (cases "split_ws cs")
          case Nil
          then show ?thesis using False Cons nd by simp
        next
          case (Cons t ts)
          then have "[] \<notin> set ts"
            using \<open>[] \<notin> set (split_ws cs)\<close> by simp
          then show ?thesis
            using False \<open>cs = d # ds\<close> nd Cons by simp
        qed
      qed
    qed
  qed
qed

lemma split_ws_nonempty: "t \<in> set (split_ws s) \<Longrightarrow> t \<noteq> []"
  using split_ws_no_empty [of s] by auto

lemma spec_state_nonempty:
  assumes "spec_state output serial = Some state"
  shows "state \<noteq> []"
proof -
  from assms obtain fields where f: "spec_selected output serial = Some fields"
    and s: "state = fields ! 1"
    by (auto simp: spec_state_def)
  from f have "fields \<in> set (spec_records output)"
    by (auto simp: spec_selected_def find_Some_iff)
  then obtain line where "fields = split_ws line" and "2 \<le> length fields"
    by (auto simp: spec_records_def)
  then have "fields ! 1 \<in> set (split_ws line)"
    by (metis nth_mem Suc_1 Suc_le_lessD)
  then show ?thesis using s by (auto dest: split_ws_nonempty)
qed

section \<open>Facts about the Device Locator\<close>

lemma match_by_name_first:
  assumes "entries = pre @ (instance_id, name) # post"
    and "contains (lower name) (lower ANDROID_DEVICE_NAME)"
    and "\<forall>(i, n) \<in> set pre. \<not> contains (lower n) (lower ANDROID_DEVICE_NAME)"
  shows "match_by_name entries = Some (instance_id, name)"
  using assms
proof (induction pre arbitrary: entries)
  case Nil
  then show ?case by simp
next
  case (Cons e pre)
  obtain i n where e: "e = (i, n)" by (cases e)
  have "match_by_name (pre @ (instance_id, name) # post) = Some (instance_id, name)"
    using Cons.prems by (intro Cons.IH) simp_all
  then show ?case using Cons.prems e by simp
qed

lemma find_by_hwids_exits:
  assumes "child_of E w [devcon_path, ''hwids'', ''=usb''] = Exits ms rc out err"
  shows "fst (find_by_hwids E devcon_path w) =
     Inr (if rc \<noteq> 0 then None else map_option fst (match_by_vid (parse_devcon_hwids out)))"
  using assms
  by (simp add: find_by_hwids_def run_command_None Let_def split: option.splits prod.splits)

lemma find_by_hwids_commands:
  "commands (since w (snd (find_by_hwids E devcon_path w))) = [[devcon_path, ''hwids'', ''=usb'']]"
proof (cases "child_of E w [devcon_path, ''hwids'', ''=usb'']")
  case (Exits ms rc out err)
  then show ?thesis
    by (simp add: find_by_hwids_def run_command_None Let_def since_append
             split: option.splits prod.splits)
next
  case LaunchFails
  then show ?thesis
    by (simp add: find_by_hwids_def run_command_None Let_def since_append)
next
  case Hangs
  then show ?thesis
    by (simp add: find_by_hwids_def run_command_None Let_def since_append)
qed


lemma since_append2:
  "trace w1 = trace w @ evs \<Longrightarrow> prefix (trace w1) (trace w2) \<Longrightarrow>
     since w w2 = evs @ since w1 w2"
  by (auto simp: since_def prefix_def)

lemma find_by_hwids_extends: "prefix (trace w) (trace (snd (find_by_hwids E devcon_path w)))"
  using find_by_hwids_quiet [of w E devcon_path] by (rule steps_prefix)

section \<open>Hosts for the concrete runs\<close>

definition start :: world where
  "start = \<lparr>clock = 0, trace = []\<rparr>"

definition host :: "(world \<Rightarrow> string list \<Rightarrow> child) \<Rightarrow> env" where
  \<comment> \<open>a Windows host with administrator rights on which every path resolves to itself\<close>
  "host children =
     \<lparr>child_of = children, oversleep = (\<lambda>w. 0), tick = (\<lambda>w. 0), platform = ''win32'', IsUserAnAdmin = Some 1,
      path_sep = CHR 0x5C, path_altsep = Some CHR ''/'',
      isfile = (\<lambda>p. True), which = (\<lambda>p. Some p)\<rparr>"

definition listing :: "string \<Rightarrow> string" where
  "listing state =
     ''List of devices attached'' @ [CHR 0x0A] @ ''R58M123ABC'' @ [CHR 0x09] @ state @ [CHR 0x0A, CHR 0x0A]"

definition default_args :: args where
  "default_args =
     \<lparr>arg_adb_path = ''adb'', arg_devcon_path = ''devcon'', arg_timeout = 4,
      arg_serial = None, arg_dry_run = False, arg_verbose = False\<rparr>"

definition late_device :: "world \<Rightarrow> string list \<Rightarrow> child" where
  "late_device w command =
     (if command = [''adb'', ''devices'']
      then Exits 100 0 (listing (if 1000 \<le> clock w then ''device'' else ''offline'')) []
      else Exits 300 0 [] [])"

definition findall_output :: string where
  "findall_output =
     ''USB'' @ [CHR 0x5C] @ ''VID_046D&PID_C52B'' @ [CHR 0x5C] @ ''6&1A2B : USB Composite Device''
     @ [CHR 0x0D, CHR 0x0A]
     @ ''USB'' @ [CHR 0x5C] @ ''VID_18D1&PID_4EE7'' @ [CHR 0x5C] @ ''R58M123ABC : Android Composite ADB Interface''
     @ [CHR 0x0D, CHR 0x0A] @ ''2 matching device(s) found.'' @ [CHR 0x0D, CHR 0x0A]"

definition stubborn_device :: "world \<Rightarrow> string list \<Rightarrow> child" where
  "stubborn_device w command =
     (if command = [''adb'', ''devices''] then Exits 100 0 (listing ''offline'') []
      else if command = [''devcon'', ''findall'', ''=usb''] then Exits 200 0 findall_output []
      else Exits 300 0 [] [])"

lemma listing_offline: "parse_adb_devices (listing ''offline'') None = Some ''offline''"
  by code_simp

lemma findall_match:
  "match_by_name (parse_devcon_findall findall_output) =
     Some (''USB'' @ [CHR 0x5C] @ ''VID_18D1&PID_4EE7'' @ [CHR 0x5C] @ ''R58M123ABC'',
           ''Android Composite ADB Interface'')"
  by code_simp

lemma host_gate:
  "is_windows_admin (host c)"
  "resolve_executable (host c) ''adb'' = Some ''adb''"
  "resolve_executable (host c) ''devcon'' = Some ''devcon''"
  by (simp_all add: host_def is_windows_admin_def resolve_executable_def contains_def)

lemma host_children [simp]:
  "child_of (host c) = c" "oversleep (host c) = (\<lambda>w. 0)" "tick (host c) = (\<lambda>w. 0)"
  by (simp_all add: host_def)

lemma default_timeout_fits: "\<not> float_overflow 4"
  by (simp add: float_overflow_def)

lemma listing_state:
  "spec_state (listing ''unauthorized'') (Some ''R58M123ABC'') = Some ''unauthorized''"
  by code_simp

definition hwids_output :: string where
  "hwids_output =
     ''USB'' @ [CHR 0x5C] @ ''VID_04E8&PID_6860'' @ [CHR 0x5C] @ ''5200A1 : SAMSUNG Mobile USB Composite Device''
     @ [CHR 0x0D, CHR 0x0A]
     @ ''    Hardware IDs:'' @ [CHR 0x0D, CHR 0x0A]
     @ ''        USB'' @ [CHR 0x5C] @ ''VID_04e8&PID_6860&REV_0400'' @ [CHR 0x0D, CHR 0x0A]
     @ [CHR 0x0D, CHR 0x0A]"

definition two_devices :: "int \<Rightarrow> world \<Rightarrow> string list \<Rightarrow> child" where
  "two_devices rc w command =
     (if command = [''devcon'', ''findall'', ''=usb''] then Exits 200 rc findall_output []
      else if command = [''devcon'', ''hwids'', ''=usb''] then Exits 250 0 hwids_output []
      else Exits 300 0 [] [])"

lemma findall_entries:
  "parse_devcon_findall findall_output =
     [(''USB'' @ [CHR 0x5C] @ ''VID_046D&PID_C52B'' @ [CHR 0x5C] @ ''6&1A2B'', ''USB Composite Device'')]
     @ (''USB'' @ [CHR 0x5C] @ ''VID_18D1&PID_4EE7'' @ [CHR 0x5C] @ ''R58M123ABC'',
        ''Android Composite ADB Interface'') # []"
  by code_simp

lemma name_matches:
  "contains (lower ''Android Composite ADB Interface'') (lower ANDROID_DEVICE_NAME)"
  by code_simp

lemma name_differs:
  "\<not> contains (lower ''USB Composite Device'') (lower ANDROID_DEVICE_NAME)"
  by code_simp

lemma hwids_match:
  "map_option fst (match_by_vid (parse_devcon_hwids hwids_output)) =
     Some (''USB'' @ [CHR 0x5C] @ ''VID_04E8&PID_6860'' @ [CHR 0x5C] @ ''5200A1'')"
  by code_simp

definition no_adb :: "world \<Rightarrow> string list \<Rightarrow> child" where
  "no_adb w command = LaunchFails"

lemma main_no_adb:
  "main (host no_adb) default_args start =
     (Inl OSError,
      \<lparr>clock = 0,
       trace = [Log DEBUG ''Running command: adb devices'', Ran [''adb'', ''devices''] LaunchFails]\<rparr>)"
  by (simp add: main_def host_gate truthy_def default_args_def recover_def is_adb_healthy_def
        adb_command_def run_command_None no_adb_def start_def log_def child_ran_def)

definition guest :: env where
  \<comment> \<open>a Windows host without administrator rights on which no tool can be found\<close>
  "guest = (host no_adb)\<lparr>IsUserAnAdmin := Some 0, isfile := (\<lambda>p. False), which := (\<lambda>p. None)\<rparr>"

section \<open>Hard Resetter: a failing disable\<close>

text \<open>
  C6. Outside dry-run mode, when the disable command exits with a non-zero code, \<open>hard_reset\<close>
  returns \<open>False\<close> at once: the events it leaves are the disable command and the error
  line, with no sleep and no enable command.
\<close>

theorem hard_reset_disable_failure:
  assumes "\<not> dry_run"
    and "child_of E w [devcon_path, ''disable'', instance_id] = Exits ms rc out err"
    and "rc \<noteq> 0"
  shows "fst (hard_reset E devcon_path instance_id dry_run w) = Inr False
    \<and> since w (snd (hard_reset E devcon_path instance_id dry_run w)) =
        [Log DEBUG (''Running command: '' @ join '' '' [devcon_path, ''disable'', instance_id]),
         Ran [devcon_path, ''disable'', instance_id] (Exits ms rc out err),
         Log ERROR (''devcon disable failed: '' @ strip err)]
    \<and> commands (since w (snd (hard_reset E devcon_path instance_id dry_run w))) =
        [[devcon_path, ''disable'', instance_id]]
    \<and> clock (snd (hard_reset E devcon_path instance_id dry_run w)) = clock w + int ms"
  using assms by (simp add: hard_reset_def run_command_None Let_def since_append)

theorem hard_reset_disable_failure_witness:
  "\<not> False
   \<and> child_of (host (\<lambda>w c. Exits 40 1 [] ''Disable failed'')) start
        [''devcon'', ''disable'', ''USB1''] = Exits 40 1 [] ''Disable failed''
   \<and> (1::int) \<noteq> 0
   \<and> fst (hard_reset (host (\<lambda>w c. Exits 40 1 [] ''Disable failed'')) ''devcon'' ''USB1'' False start)
        = Inr False
   \<and> commands (since start
        (snd (hard_reset (host (\<lambda>w c. Exits 40 1 [] ''Disable failed'')) ''devcon'' ''USB1'' False
           start))) = [[''devcon'', ''disable'', ''USB1'']]"
  using hard_reset_disable_failure
    [of False "host (\<lambda>w c. Exits 40 1 [] ''Disable failed'')" start "''devcon''" "''USB1''"
        40 1 "[]" "''Disable failed''"]
  by (simp add: host_def)

section \<open>Soft Resetter: three commands, whatever their exit codes\<close>

lemma soft_reset_loop_commands:
  assumes "\<forall>w c. exited (child_of E w c)"
  shows "fst (soft_reset_loop E adb_path cmds w) = Inr ()
    \<and> (\<exists>evs. trace (snd (soft_reset_loop E adb_path cmds w)) = trace w @ evs
          \<and> commands evs = map ((#) adb_path) cmds)"
proof (induction cmds arbitrary: w)
  case Nil
  show ?case by simp
next
  case (Cons args rest)
  from assms have "exited (child_of E w (adb_path # args))" by blast
  then obtain ms rc out err where c: "child_of E w (adb_path # args) = Exits ms rc out err"
    by (cases "child_of E w (adb_path # args)") simp_all
  let ?w1 = "child_ran (adb_path # args) (Exits ms rc out err) ms
               (log DEBUG (''Running command: '' @ join '' '' (adb_path # args)) w)"
  let ?w2 = "if rc \<noteq> 0
             then log WARNING (''adb '' @ join '' '' args @ '' failed: '' @ strip err) ?w1 else ?w1"
  have step: "soft_reset_loop E adb_path (args # rest) w = soft_reset_loop E adb_path rest ?w2"
    using c by (simp add: adb_command_def run_command_None Let_def)
  from Cons.IH [of ?w2] obtain evs where
    r: "fst (soft_reset_loop E adb_path rest ?w2) = Inr ()"
    and t: "trace (snd (soft_reset_loop E adb_path rest ?w2)) = trace ?w2 @ evs"
    and k: "commands evs = map ((#) adb_path) rest"
    by blast
  have "\<exists>pre. trace ?w2 = trace w @ pre \<and> commands pre = [adb_path # args]"
    by simp
  then obtain pre where p: "trace ?w2 = trace w @ pre" "commands pre = [adb_path # args]"
    by blast
  have "trace (snd (soft_reset_loop E adb_path (args # rest) w)) = trace w @ (pre @ evs)"
    using step t p by simp
  moreover have "commands (pre @ evs) = map ((#) adb_path) (args # rest)"
    using p k by simp
  ultimately show ?case using step r by metis
qed

text \<open>
  C7. Whatever exit codes the children return, \<open>soft_reset\<close> runs exactly three commands,
  \<open>kill-server\<close>, \<open>start-server\<close> and \<open>reconnect\<close>, in this order, and returns. A non-zero
  exit code only adds a warning to the log. (A child that cannot be launched or never
  exits is not an exit code; it ends the sequence.)
\<close>

theorem soft_reset_three_commands:
  assumes "\<forall>w c. exited (child_of E w c)"
  shows "fst (soft_reset E adb_path w) = Inr ()
    \<and> commands (since w (snd (soft_reset E adb_path w))) =
        [[adb_path, ''kill-server''], [adb_path, ''start-server''], [adb_path, ''reconnect'']]"
proof -
  from soft_reset_loop_commands [OF assms, of adb_path ADB_SOFT_RESET_COMMANDS w]
  obtain evs where "fst (soft_reset E adb_path w) = Inr ()"
    and "trace (snd (soft_reset E adb_path w)) = trace w @ evs"
    and "commands evs = map ((#) adb_path) ADB_SOFT_RESET_COMMANDS"
    unfolding soft_reset_def by blast
  then show ?thesis
    by (simp add: since_append ADB_SOFT_RESET_COMMANDS_def)
qed

theorem soft_reset_three_commands_witness:
  "(\<forall>w c. exited (child_of (host (\<lambda>w c. if c = [''adb'', ''reconnect''] then Exits 5 0 [] [] else Exits 5 1 [] ''failed'')) w c))
   \<and> fst (soft_reset (host (\<lambda>w c. if c = [''adb'', ''reconnect''] then Exits 5 0 [] [] else Exits 5 1 [] ''failed'')) ''adb'' start) = Inr ()
   \<and> commands (since start (snd (soft_reset (host (\<lambda>w c. if c = [''adb'', ''reconnect''] then Exits 5 0 [] [] else Exits 5 1 [] ''failed'')) ''adb'' start))) =
        [[''adb'', ''kill-server''], [''adb'', ''start-server''], [''adb'', ''reconnect'']]"
proof -
  have h: "\<forall>w c. exited (child_of (host (\<lambda>w c. if c = [''adb'', ''reconnect''] then Exits 5 0 [] [] else Exits 5 1 [] ''failed'')) w c)"
    by (simp add: host_def)
  show ?thesis
    using h soft_reset_three_commands [OF h, of "''adb''" start] by simp
qed

section \<open>Orchestrator: success only on a healthy probe\<close>

text \<open>
  C2. When \<open>main\<close> returns the exit code 0, the last thing it did was a probe that
  reported Healthy: the trace ends with a run of the device listing that exited with code
  0 and whose selected record has the state \<open>device\<close>, followed only by the log line of
  that probe. No sleep, reset or other command lies between the probe and the return.
\<close>

theorem main_success_follows_healthy_probe:
  assumes "main E a w = (Inr 0, w')"
  shows "\<exists>pre adb_path ms out err.
           trace w' = pre @ [Ran [adb_path, ''devices''] (Exits ms 0 out err),
                             Log INFO ''ADB device is healthy (device).'']
           \<and> parse_adb_devices out (arg_serial a) = Some ''device''"
proof -
  have "ends_healthy (arg_serial a) (trace w')"
    using assms recover_result [of E a _ _ w "Inr 0" w']
    by (auto simp: main_gate split: if_splits)
  then show ?thesis by (rule ends_healthyD)
qed

theorem main_success_follows_healthy_probe_witness:
  "main (host late_device) default_args start =
     (Inr 0, snd (main (host late_device) default_args start))
   \<and> (\<exists>pre adb_path ms out err.
         trace (snd (main (host late_device) default_args start)) =
           pre @ [Ran [adb_path, ''devices''] (Exits ms 0 out err),
                  Log INFO ''ADB device is healthy (device).'']
         \<and> parse_adb_devices out (arg_serial default_args) = Some ''device'')"
proof -
  have "fst (main (host late_device) default_args start) = Inr 0"
    by code_simp
  then have h: "main (host late_device) default_args start =
      (Inr 0, snd (main (host late_device) default_args start))"
    by (simp add: prod_eq_iff)
  show ?thesis
    using h main_success_follows_healthy_probe [OF h] by simp
qed

section \<open>Orchestrator: hard reset comes after an exhausted soft reset\<close>

text \<open>
  C3. If a run of \<open>main\<close> leaves any trace of \<open>hard_reset\<close> (a disable or enable command,
  or the lines of a dry run), then before it the first probe was unhealthy, \<open>soft_reset\<close>
  ran its three commands and returned, and the polling that followed returned \<open>False\<close>
  with the clock at or past its deadline and without a healthy listing in between; up to
  that moment no event of a hard reset had occurred.
\<close>

theorem hard_reset_only_after_exhausted_soft_reset:
  assumes run: "main E a w = (r, w')"
    and reset: "list_ex is_hard_reset_event (since w w')"
  shows "\<exists>adb_path w1 w2 w3.
      resolve_executable E (arg_adb_path a) = Some adb_path
    \<and> is_adb_healthy E adb_path (arg_serial a) w = (Inr False, w1)
    \<and> soft_reset E adb_path (log INFO ''Attempting soft reset of ADB server.'' w1) = (Inr (), w2)
    \<and> commands (since w1 w2) =
        [[adb_path, ''kill-server''], [adb_path, ''start-server''], [adb_path, ''reconnect'']]
    \<and> poll_until_healthy E adb_path (arg_serial a) (arg_timeout a) w2 = (Inr False, w3)
    \<and> clock w2 + 1000 * arg_timeout a \<le> clock w3
    \<and> list_all (\<lambda>e. \<not> is_healthy_observation (arg_serial a) e) (since w2 w3)
    \<and> list_all (\<lambda>e. \<not> is_hard_reset_event e) (since w w3)
    \<and> prefix (trace w3) (trace w')"
proof -
  let ?adb = "the (resolve_executable E (arg_adb_path a))"
  let ?devcon = "the (resolve_executable E (arg_devcon_path a))"
  have gate: "is_windows_admin E \<and> tools_resolved E a"
  proof (rule ccontr)
    assume "\<not> (is_windows_admin E \<and> tools_resolved E a)"
    then obtain msg where "w' = log ERROR msg w"
      using run by (auto simp: main_gate split: if_splits)
    then have "since w w' = [Log ERROR msg]"
      by (simp add: since_append)
    then show False
      using reset by (simp add: is_hard_reset_event_def)
  qed
  then have rec: "recover E a ?adb ?devcon w = (r, w')"
    using run by (simp add: main_gate)
  from gate have adb: "resolve_executable E (arg_adb_path a) = Some ?adb"
    by (auto simp: tools_resolved_def truthy_def split: option.splits)
  have quiet_start: "steps no_reset w w1"
    if "is_adb_healthy E ?adb (arg_serial a) w = (r1, w1)" for r1 w1
    using is_adb_healthy_no_reset [of w E ?adb "arg_serial a"] that by simp
  have quiet_soft: "steps no_reset w1 w2"
    if "soft_reset E ?adb (log INFO ''Attempting soft reset of ADB server.'' w1) = (r2, w2)"
    for r2 w1 w2
  proof -
    have "steps no_reset w1 (log INFO ''Attempting soft reset of ADB server.'' w1)"
      by (rule steps_log) (rule no_reset_log_attempt)
    moreover have "steps no_reset (log INFO ''Attempting soft reset of ADB server.'' w1) w2"
      using soft_reset_quiet [of "log INFO ''Attempting soft reset of ADB server.'' w1" E ?adb] that
      by (auto intro: quiet_no_reset)
    ultimately show ?thesis by (rule steps_trans)
  qed
  have contra: "steps no_reset w w' \<Longrightarrow> False"
    using reset by (auto dest!: steps_since no_hard_reset)
  from rec show ?thesis
  proof (cases rule: recover_cases)
    case (probe_abort x)
    show ?thesis by (rule FalseE [OF contra [OF quiet_start [OF probe_abort(1)]]])
  next
    case already_healthy
    show ?thesis by (rule FalseE [OF contra [OF quiet_start [OF already_healthy(1)]]])
  next
    case (soft_abort w1 x)
    show ?thesis
      by (rule FalseE [OF contra [OF steps_trans [OF quiet_start [OF soft_abort(1)]
                quiet_soft [OF soft_abort(2)]]]])
  next
    case (poll_abort w1 w2 x)
    show ?thesis
      by (rule FalseE [OF contra [OF steps_trans [OF steps_trans [OF quiet_start [OF poll_abort(1)]
                quiet_soft [OF poll_abort(2)]] poll_until_healthy_no_reset [OF poll_abort(3)]]]])
  next
    case (recovered w1 w2)
    show ?thesis
      by (rule FalseE [OF contra [OF steps_trans [OF steps_trans [OF quiet_start [OF recovered(1)]
                quiet_soft [OF recovered(2)]] poll_until_healthy_no_reset [OF recovered(3)]]]])
  next
    case (escalated w1 w2 w3)
    have s3: "steps no_reset w w3"
      by (rule steps_trans [OF steps_trans [OF quiet_start [OF escalated(1)]
                quiet_soft [OF escalated(2)]] poll_until_healthy_no_reset [OF escalated(3)]])
    let ?w1 = "log INFO ''Attempting soft reset of ADB server.'' w1"
    have c: "commands (since w1 w2) =
        [[?adb, ''kill-server''], [?adb, ''start-server''], [?adb, ''reconnect'']]"
    proof -
      have a1: "steps no_reset w1 ?w1"
        by (rule steps_log) (rule no_reset_log_attempt)
      have "steps quiet ?w1 w2"
        using soft_reset_quiet [of ?w1 E ?adb] escalated(2) by simp
      with a1 have "since w1 w2 = since w1 ?w1 @ since ?w1 w2"
        by (rule since_trans)
      moreover have "since w1 ?w1 = [Log INFO ''Attempting soft reset of ADB server.'']"
        by (simp add: since_append)
      ultimately show ?thesis
        using soft_reset_returned [OF escalated(2)] by simp
    qed
    from poll_until_healthy_False [OF escalated(3)]
    have d: "clock w2 + 1000 * arg_timeout a \<le> clock w3"
      and o: "list_all (\<lambda>e. \<not> is_healthy_observation (arg_serial a) e) (since w2 w3)"
      by (simp_all add: steps_def list_all_iff)
    have n: "list_all (\<lambda>e. \<not> is_hard_reset_event e) (since w w3)"
      using steps_since [OF s3] by (simp add: no_reset_def list_all_iff)
    have p: "prefix (trace w3) (trace w')"
      using escalated(4) by (rule escalate_extends)
    show ?thesis
      apply (rule exI [of _ ?adb], rule exI [of _ w1], rule exI [of _ w2], rule exI [of _ w3])
      using adb escalated(1-3) c d o n p by simp
  qed
qed

theorem hard_reset_only_after_exhausted_soft_reset_witness:
  "main (host stubborn_device) default_args start =
     (fst (main (host stubborn_device) default_args start),
      snd (main (host stubborn_device) default_args start))
   \<and> list_ex is_hard_reset_event
        (since start (snd (main (host stubborn_device) default_args start)))
   \<and> (\<exists>adb_path w1 w2 w3.
        resolve_executable (host stubborn_device) (arg_adb_path default_args) = Some adb_path
      \<and> is_adb_healthy (host stubborn_device) adb_path (arg_serial default_args) start
          = (Inr False, w1)
      \<and> soft_reset (host stubborn_device) adb_path
           (log INFO ''Attempting soft reset of ADB server.'' w1) = (Inr (), w2)
      \<and> commands (since w1 w2) =
          [[adb_path, ''kill-server''], [adb_path, ''start-server''], [adb_path, ''reconnect'']]
      \<and> poll_until_healthy (host stubborn_device) adb_path (arg_serial default_args)
           (arg_timeout default_args) w2 = (Inr False, w3)
      \<and> clock w2 + 1000 * arg_timeout default_args \<le> clock w3
      \<and> list_all (\<lambda>e. \<not> is_healthy_observation (arg_serial default_args) e) (since w2 w3)
      \<and> list_all (\<lambda>e. \<not> is_hard_reset_event e) (since start w3)
      \<and> prefix (trace w3) (trace (snd (main (host stubborn_device) default_args start))))"
proof -
  have h1: "main (host stubborn_device) default_args start =
     (fst (main (host stubborn_device) default_args start),
      snd (main (host stubborn_device) default_args start))"
    by simp
  have h2: "list_ex is_hard_reset_event
        (since start (snd (main (host stubborn_device) default_args start)))"
    by (simp add: main_def host_gate truthy_def recover_def escalate_def default_args_def
          is_adb_healthy_def adb_command_def run_command_None Let_def
          soft_reset_def ADB_SOFT_RESET_COMMANDS_def ADB_HEALTHY_STATE_def
          poll_until_healthy_def poll_loop.simps find_devcon_device_def hard_reset_def
          default_timeout_fits
          stubborn_device_def listing_offline findall_match since_def start_def
          is_hard_reset_event_def)
  show ?thesis
    using h1 h2 hard_reset_only_after_exhausted_soft_reset [OF h1 h2] by blast
qed

section \<open>Bridge Health Prober: the classification\<close>

text \<open>
  C1. When the device listing exits with code 0, \<open>is_adb_healthy\<close> returns \<open>True\<close> exactly when
  the selected record (the first record, or the first whose serial equals the filter) has
  the state token \<open>device\<close>; with any other state token, and a state token is never empty,
  it returns \<open>False\<close>.
\<close>

theorem is_adb_healthy_classification:
  assumes "child_of E w [adb_path, ''devices''] = Exits ms 0 out err"
  shows "fst (is_adb_healthy E adb_path serial w) = Inr (spec_state out serial = Some ''device'')
    \<and> (\<forall>state. spec_state out serial = Some state \<longrightarrow> state \<noteq> [])"
proof -
  have "fst (is_adb_healthy E adb_path serial w) = Inr (spec_state out serial = Some ''device'')"
    using assms
    by (simp add: is_adb_healthy_def adb_command_def run_command_None Let_def
                  parse_adb_devices_spec ADB_HEALTHY_STATE_def
             split: option.splits)
  then show ?thesis
    using spec_state_nonempty by blast
qed

theorem is_adb_healthy_classification_witness:
  "child_of (host (\<lambda>w c. Exits 100 0 (listing ''unauthorized'') [])) start [''adb'', ''devices'']
     = Exits 100 0 (listing ''unauthorized'') []
   \<and> spec_state (listing ''unauthorized'') (Some ''R58M123ABC'') = Some ''unauthorized''
   \<and> fst (is_adb_healthy (host (\<lambda>w c. Exits 100 0 (listing ''unauthorized'') [])) ''adb''
            (Some ''R58M123ABC'') start) = Inr False
   \<and> ''unauthorized'' \<noteq> []"
  using is_adb_healthy_classification
    [of "host (\<lambda>w c. Exits 100 0 (listing ''unauthorized'') [])" start "''adb''" 100
        "listing ''unauthorized''" "[]" "Some ''R58M123ABC''"]
  by (simp add: listing_state)

section \<open>Command Runner: a command that cannot be launched\<close>

text \<open>
  C8, as amended. \<open>run_command\<close> has one handler, for the expiry of the timeout. For every
  command: it ends with the \<open>OSError\<close> of the operating system exactly when the child
  process cannot be launched; it ends with \<open>CommandError\<close>, with the message
  \<open>Command timed out: \<close> followed by the command, exactly when a timeout is given and the
  child has not exited within it; and it returns a result, which carries the exit code and
  the output of the child, exactly when the child exits (within the timeout, if there is
  one). Its only other way to end is not to return, when the child never exits and no
  timeout is given. So a failed launch is distinct from the timeout error and from a
  result with a non-zero exit code, but it is the error of the operating system, not one
  of the program's own. No caller catches it: a run of \<open>main\<close> in which some command could
  not be launched ends with that \<open>OSError\<close>.
\<close>

theorem run_command_launch_failure:
  "(fst (run_command E command timeout w) = Inl OSError \<longleftrightarrow> child_of E w command = LaunchFails)
   \<and> (fst (run_command E command timeout w)
         = Inl (CommandError (''Command timed out: '' @ join '' '' command)) \<longleftrightarrow>
       (\<exists>t. timeout = Some t
          \<and> (case child_of E w command of
                Exits ms rc out err \<Rightarrow> 1000 * t < int ms
              | LaunchFails \<Rightarrow> False
              | Hangs \<Rightarrow> True)))
   \<and> (\<forall>result. fst (run_command E command timeout w) = Inr result \<longleftrightarrow>
         (case child_of E w command of
            Exits ms rc out err \<Rightarrow>
              result = \<lparr>returncode = rc, stdout = out, stderr = err\<rparr>
              \<and> (case timeout of None \<Rightarrow> True | Some t \<Rightarrow> int ms \<le> 1000 * t)
          | LaunchFails \<Rightarrow> False
          | Hangs \<Rightarrow> False))
   \<and> (\<forall>x. fst (run_command E command timeout w) = Inl x \<longrightarrow>
         x = OSError \<or> x = NoReturn
         \<or> x = CommandError (''Command timed out: '' @ join '' '' command))
   \<and> (\<forall>c. Ran c LaunchFails \<in> set (since w0 (snd (main E a w0))) \<longrightarrow>
         fst (main E a w0) = Inl OSError)"
proof -
  have r: "(fst (run_command E command timeout w) = Inl OSError \<longleftrightarrow> child_of E w command = LaunchFails)
   \<and> (fst (run_command E command timeout w)
         = Inl (CommandError (''Command timed out: '' @ join '' '' command)) \<longleftrightarrow>
       (\<exists>t. timeout = Some t
          \<and> (case child_of E w command of
                Exits ms rc out err \<Rightarrow> 1000 * t < int ms
              | LaunchFails \<Rightarrow> False
              | Hangs \<Rightarrow> True)))
   \<and> (\<forall>result. fst (run_command E command timeout w) = Inr result \<longleftrightarrow>
         (case child_of E w command of
            Exits ms rc out err \<Rightarrow>
              result = \<lparr>returncode = rc, stdout = out, stderr = err\<rparr>
              \<and> (case timeout of None \<Rightarrow> True | Some t \<Rightarrow> int ms \<le> 1000 * t)
          | LaunchFails \<Rightarrow> False
          | Hangs \<Rightarrow> False))
   \<and> (\<forall>x. fst (run_command E command timeout w) = Inl x \<longrightarrow>
         x = OSError \<or> x = NoReturn
         \<or> x = CommandError (''Command timed out: '' @ join '' '' command))"
    by (cases "child_of E w command"; cases timeout)
       (auto simp: run_command_def Let_def)
  have m: "fst (main E a w0) = Inl OSError"
    if "Ran c LaunchFails \<in> set (since w0 (snd (main E a w0)))" for c
  proof -
    have "accounted (fst (main E a w0)) w0 (snd (main E a w0))"
      by (rule main_accounted) simp
    then show ?thesis using that by (rule accounted_launch_failure)
  qed
  show ?thesis using r m by blast
qed

theorem run_command_launch_failure_witness:
  "Ran [''adb'', ''devices''] LaunchFails
     \<in> set (since start (snd (main (host no_adb) default_args start)))
   \<and> fst (main (host no_adb) default_args start) = Inl OSError
   \<and> child_of (host no_adb) start [''adb'', ''devices''] = LaunchFails
   \<and> fst (run_command (host no_adb) [''adb'', ''devices''] (Some 5) start) = Inl OSError"
proof -
  have h: "Ran [''adb'', ''devices''] LaunchFails
     \<in> set (since start (snd (main (host no_adb) default_args start)))"
    unfolding main_no_adb by (simp add: since_def start_def)
  have c: "child_of (host no_adb) start [''adb'', ''devices''] = LaunchFails"
    by (simp add: no_adb_def)
  show ?thesis
    using h c
      run_command_launch_failure
        [of "host no_adb" "[''adb'', ''devices'']" "Some 5" start start default_args]
    by blast
qed

text \<open>
  The claim as it was stated fails: there is no \<open>LaunchFailure\<close> in the program. On a host
  where no command can be launched, \<open>run_command\<close> ends with the \<open>OSError\<close> itself, and so
  does \<open>main\<close>.
\<close>

theorem run_command_unstructured_counterexample:
  "fst (run_command (host no_adb) [''devcon'', ''findall'', ''=usb''] None start) = Inl OSError
   \<and> fst (main (host no_adb) default_args start) = Inl OSError"
  by (simp add: run_command_None no_adb_def main_no_adb)

section \<open>Orchestrator: the exit codes\<close>

text \<open>
  C4, as amended. \<open>main\<close> checks the privilege precondition first and the tools second:
  it returns 3 exactly when the privilege precondition is unsatisfied, and 2 exactly when
  the privilege precondition is satisfied and a required tool could not be resolved. Past
  both gates, \<open>main\<close> returns the exit code \<open>code\<close> in the world \<open>w'\<close> exactly when the run
  from \<open>w\<close> to \<open>w'\<close> has one of the six outcomes of the specification and \<open>code\<close> is the
  exit code of that outcome: 0 for \<open>AlreadyHealthy\<close> (the first probe is healthy),
  \<open>RecoveredBySoftReset\<close> (the first probe is unhealthy, the soft reset returns and the
  polling after it sees the device healthy) and \<open>RecoveredByHardReset\<close> (the polling after
  the soft reset gives up, the device is located, the hard reset succeeds, the second soft
  reset returns and the polling after it sees the device healthy); 1 for \<open>DeviceNotFound\<close>
  (the polling after the soft reset gives up and the locator finds no device),
  \<open>HardResetFailed\<close> (the device is located and the hard reset reports failure) and
  \<open>TimedOut\<close> (the polling after the hard reset and the second soft reset gives up). A run
  has at most one outcome, ending in one world. The remaining runs return no exit code:
  they are past both gates and end with an exception that \<open>main\<close> does not catch, either
  the \<open>OverflowError\<close> of a timeout too large for a float, or the error of the last child
  process of the run, which could not be launched or never exited.
\<close>

theorem main_exit_code:
  "(fst (main E a w) = Inr 3 \<longleftrightarrow> \<not> is_windows_admin E)
   \<and> (fst (main E a w) = Inr 2 \<longleftrightarrow> is_windows_admin E \<and> \<not> tools_resolved E a)
   \<and> (is_windows_admin E \<and> tools_resolved E a \<longrightarrow>
        (\<forall>code w'. main E a w = (Inr code, w') \<longleftrightarrow>
           (\<exists>out. spec_outcome E a (the (resolve_executable E (arg_adb_path a)))
                    (the (resolve_executable E (arg_devcon_path a))) w out w'
                  \<and> exit_code out = code)))
   \<and> (\<forall>out1 w1 out2 w2.
         spec_outcome E a adb_path devcon_path w out1 w1 \<longrightarrow>
         spec_outcome E a adb_path devcon_path w out2 w2 \<longrightarrow> out1 = out2 \<and> w1 = w2)
   \<and> (\<forall>x. fst (main E a w) = Inl x \<longrightarrow>
         is_windows_admin E \<and> tools_resolved E a
         \<and> ((x = OverflowError \<and> float_overflow (arg_timeout a))
              \<or> raised_by x (since w (snd (main E a w)))))"
proof -
  let ?adb = "the (resolve_executable E (arg_adb_path a))"
  let ?devcon = "the (resolve_executable E (arg_devcon_path a))"
  have c1: "fst (main E a w) = Inr 3 \<longleftrightarrow> \<not> is_windows_admin E"
  proof (cases "is_windows_admin E \<and> tools_resolved E a")
    case True
    then have "main E a w = recover E a ?adb ?devcon w" by (simp add: main_gate)
    moreover obtain r w' where r: "recover E a ?adb ?devcon w = (r, w')"
      by (cases "recover E a ?adb ?devcon w")
    ultimately show ?thesis using recover_result [OF r] True by auto
  next
    case False
    then show ?thesis by (auto simp: main_gate)
  qed
  have c2: "fst (main E a w) = Inr 2 \<longleftrightarrow> is_windows_admin E \<and> \<not> tools_resolved E a"
  proof (cases "is_windows_admin E \<and> tools_resolved E a")
    case True
    then have "main E a w = recover E a ?adb ?devcon w" by (simp add: main_gate)
    moreover obtain r w' where r: "recover E a ?adb ?devcon w = (r, w')"
      by (cases "recover E a ?adb ?devcon w")
    ultimately show ?thesis using recover_result [OF r] True by auto
  next
    case False
    then show ?thesis by (auto simp: main_gate)
  qed
  have c3: "main E a w = (Inr code, w') \<longleftrightarrow>
           (\<exists>out. spec_outcome E a ?adb ?devcon w out w' \<and> exit_code out = code)"
    if "is_windows_admin E \<and> tools_resolved E a" for code w'
  proof -
    from that have "main E a w = recover E a ?adb ?devcon w" by (simp add: main_gate)
    then show ?thesis
      using recover_to_outcome [of E a ?adb ?devcon w code w']
        outcome_to_recover [of E a ?adb ?devcon w _ w']
      by auto
  qed
  have c5: "is_windows_admin E \<and> tools_resolved E a
         \<and> ((x = OverflowError \<and> float_overflow (arg_timeout a))
              \<or> raised_by x (since w (snd (main E a w))))"
    if "fst (main E a w) = Inl x" for x
  proof -
    from that have "main E a w = (Inl x, snd (main E a w))" by (simp add: prod_eq_iff)
    then show ?thesis by (rule main_abort)
  qed
  show ?thesis
    using c1 c2 c3 c5 spec_outcome_unique [of E a adb_path devcon_path w] by blast
qed

theorem main_exit_code_witness:
  "is_windows_admin (host late_device) \<and> tools_resolved (host late_device) default_args
   \<and> main (host late_device) default_args start
       = (Inr 0, snd (main (host late_device) default_args start))
   \<and> (\<exists>out. spec_outcome (host late_device) default_args ''adb'' ''devcon'' start out
                (snd (main (host late_device) default_args start))
              \<and> exit_code out = 0)
   \<and> fst (main (host no_adb) default_args start) = Inl OSError
   \<and> raised_by OSError (since start (snd (main (host no_adb) default_args start)))"
proof -
  have g: "is_windows_admin (host late_device) \<and> tools_resolved (host late_device) default_args"
    by (simp add: host_gate tools_resolved_def truthy_def default_args_def)
  have "fst (main (host late_device) default_args start) = Inr 0"
    by code_simp
  then have h: "main (host late_device) default_args start =
      (Inr 0, snd (main (host late_device) default_args start))"
    by (simp add: prod_eq_iff)
  have t: "the (resolve_executable (host late_device) (arg_adb_path default_args)) = ''adb''"
    "the (resolve_executable (host late_device) (arg_devcon_path default_args)) = ''devcon''"
    by (simp_all add: host_gate default_args_def)
  have o: "\<exists>out. spec_outcome (host late_device) default_args ''adb'' ''devcon'' start out
                (snd (main (host late_device) default_args start))
              \<and> exit_code out = 0"
    using main_exit_code [of "host late_device" default_args start] g h unfolding t by blast
  have x: "fst (main (host no_adb) default_args start) = Inl OSError"
    by (simp add: main_no_adb)
  have f: "\<not> float_overflow (arg_timeout default_args)"
    by (simp add: default_args_def default_timeout_fits)
  have r: "raised_by OSError (since start (snd (main (host no_adb) default_args start)))"
    using main_exit_code [of "host no_adb" default_args start] x f by blast
  show ?thesis using g h o x r by blast
qed

text \<open>
  The claim as it was stated fails on two runs. Without administrator rights and without
  a resolvable \<open>adb\<close>, the exit code is 3, not 2, although a required tool could not be
  resolved. And when the device listing cannot be launched, \<open>main\<close> ends with the
  \<open>OSError\<close> and produces none of the four exit codes.
\<close>

theorem main_exit_code_counterexample:
  "resolve_executable guest (arg_adb_path default_args) = None
   \<and> fst (main guest default_args start) = Inr 3
   \<and> fst (main (host no_adb) default_args start) = Inl OSError"
proof -
  have "resolve_executable guest (arg_adb_path default_args) = None"
    by (simp add: guest_def resolve_executable_def host_def default_args_def contains_def)
  moreover have "fst (main guest default_args start) = Inr 3"
    by (simp add: guest_def main_def is_windows_admin_def host_def)
  moreover have "fst (main (host no_adb) default_args start) = Inl OSError"
    by (simp add: main_no_adb)
  ultimately show ?thesis by simp
qed

end
